theory Spec2Isabelle
  imports Main
begin

section \<open>JavaScript strings\<close>

text \<open>
  A JavaScript string is a sequence of UTF-16 code units; \<open>length\<close>, \<open>trim\<close>, \<open>split\<close> and
  regular expressions without the \<open>u\<close> flag all work on code units. A code unit is modelled
  as a natural number, a string as a list of them. \<open>js\<close> turns an ASCII literal into
  such a string.
\<close>

type_synonym jschar = nat
type_synonym jsstring = "jschar list"

definition js :: "string \<Rightarrow> jsstring" where
  "js s = map of_char s"

text \<open>
  The characters removed by \<open>String.prototype.trim\<close> and matched by \<open>\s\<close>: ECMAScript's
  WhiteSpace and LineTerminator productions (TAB, LF, VT, FF, CR, SP, NBSP, U+1680,
  U+2000..U+200A, U+2028, U+2029, U+202F, U+205F, U+3000, U+FEFF).
\<close>

definition isWhiteSpace :: "jschar \<Rightarrow> bool" where
  "isWhiteSpace c \<longleftrightarrow>
     c = 9 \<or> c = 10 \<or> c = 11 \<or> c = 12 \<or> c = 13 \<or> c = 32 \<or> c = 160 \<or> c = 5760 \<or>
     (8192 \<le> c \<and> c \<le> 8202) \<or> c = 8232 \<or> c = 8233 \<or> c = 8239 \<or> c = 8287 \<or>
     c = 12288 \<or> c = 65279"

definition trim :: "jsstring \<Rightarrow> jsstring" where
  "trim s = rev (dropWhile isWhiteSpace (rev (dropWhile isWhiteSpace s)))"

definition isDigit :: "jschar \<Rightarrow> bool" where
  "isDigit c \<longleftrightarrow> 48 \<le> c \<and> c \<le> 57"

definition isLower :: "jschar \<Rightarrow> bool" where
  "isLower c \<longleftrightarrow> 97 \<le> c \<and> c \<le> 122"

definition isUpper :: "jschar \<Rightarrow> bool" where
  "isUpper c \<longleftrightarrow> 65 \<le> c \<and> c \<le> 90"

text \<open>The class \<open>\w\<close>: \<open>[A-Za-z0-9_]\<close>.\<close>

definition isWord :: "jschar \<Rightarrow> bool" where
  "isWord c \<longleftrightarrow> isDigit c \<or> isLower c \<or> isUpper c \<or> c = 95"

section \<open>Regular expressions\<close>

text \<open>
  The fragment of the regular-expression language that \<open>input-validator.ts\<close> uses:
  character classes, concatenation, alternation and the star. \<open>matches r w\<close> is the
  meaning of an expression (the words it denotes); \<open>rx_test\<close> is the executable
  \<open>RegExp.prototype.test\<close> of an expression without anchors (some substring is
  denoted), \<open>rx_full\<close> the test of \<open>^r$\<close>. Both run on derivatives.
\<close>

datatype rx = Cls "jschar \<Rightarrow> bool" | Cat rx rx | Alt rx rx | Star rx | Eps | Nul

inductive matches :: "rx \<Rightarrow> jsstring \<Rightarrow> bool" where
  m_cls: "p c \<Longrightarrow> matches (Cls p) [c]"
| m_cat: "matches r u \<Longrightarrow> matches s v \<Longrightarrow> matches (Cat r s) (u @ v)"
| m_altl: "matches r u \<Longrightarrow> matches (Alt r s) u"
| m_altr: "matches s u \<Longrightarrow> matches (Alt r s) u"
| m_star0: "matches (Star r) []"
| m_star: "matches r u \<Longrightarrow> matches (Star r) v \<Longrightarrow> matches (Star r) (u @ v)"
| m_eps: "matches Eps []"

fun nullable :: "rx \<Rightarrow> bool" where
  "nullable (Cls p) = False"
| "nullable (Cat r s) = (nullable r \<and> nullable s)"
| "nullable (Alt r s) = (nullable r \<or> nullable s)"
| "nullable (Star r) = True"
| "nullable Eps = True"
| "nullable Nul = False"

fun deriv :: "jschar \<Rightarrow> rx \<Rightarrow> rx" where
  "deriv c (Cls p) = (if p c then Eps else Nul)"
| "deriv c (Cat r s) =
     (if nullable r then Alt (Cat (deriv c r) s) (deriv c s) else Cat (deriv c r) s)"
| "deriv c (Alt r s) = Alt (deriv c r) (deriv c s)"
| "deriv c (Star r) = Cat (deriv c r) (Star r)"
| "deriv c Eps = Nul"
| "deriv c Nul = Nul"

fun rx_full :: "rx \<Rightarrow> jsstring \<Rightarrow> bool" where
  "rx_full r [] = nullable r"
| "rx_full r (c # cs) = rx_full (deriv c r) cs"

fun match_prefix :: "rx \<Rightarrow> jsstring \<Rightarrow> bool" where
  "match_prefix r [] = nullable r"
| "match_prefix r (c # cs) = (nullable r \<or> match_prefix (deriv c r) cs)"

fun rx_test :: "rx \<Rightarrow> jsstring \<Rightarrow> bool" where
  "rx_test r [] = nullable r"
| "rx_test r (c # cs) = (match_prefix r (c # cs) \<or> rx_test r cs)"

text \<open>
  A literal character of a pattern, and a literal letter under the \<open>i\<close> flag. Without
  the \<open>u\<close> flag a code unit above 127 is never canonicalised to an ASCII letter, so an
  ASCII letter of the pattern matches exactly its two ASCII cases.
\<close>

definition lit :: "char \<Rightarrow> rx" where
  "lit ch = Cls (\<lambda>c. c = of_char ch)"

definition lit_i :: "char \<Rightarrow> rx" where
  "lit_i ch = Cls (\<lambda>c. c = of_char ch \<or>
     (isLower (of_char ch) \<and> c + 32 = of_char ch) \<or> (isUpper (of_char ch) \<and> c = of_char ch + 32))"

definition word_i :: "string \<Rightarrow> rx" where
  "word_i s = foldr Cat (map lit_i s) Eps"

definition rx_s_star :: rx where
  "rx_s_star = Star (Cls isWhiteSpace)"

text \<open>The class \<open>[\/\w]\<close>.\<close>

definition isPathOrWord :: "jschar \<Rightarrow> bool" where
  "isPathOrWord c \<longleftrightarrow> c = of_char CHR ''/'' \<or> isWord c"

section \<open>The input validator (\<open>input-validator.ts\<close>)\<close>

datatype delimiter = Paren | Brace | Bracket

text \<open>
  The error texts of \<open>validate\<close> and \<open>validateBCSyntax\<close>, one constructor for each:
  \<^item> \<open>NullOrUndefined\<close>: "Expression cannot be null or undefined";
  \<^item> \<open>TooLong max len\<close>: "Expression too long (max ... characters, got ...)";
  \<^item> \<open>EmptyExpression\<close>: "Expression cannot be empty";
  \<^item> \<open>InvalidCharacters\<close>: "Expression contains invalid characters. ...";
  \<^item> \<open>DisallowedPattern\<close>: "Expression contains disallowed patterns that could be unsafe";
  \<^item> \<open>ClosingBeforeOpening d\<close>: "Unbalanced ...: closing ... before opening";
  \<^item> \<open>Unbalanced d missing\<close>: "Unbalanced ...: missing closing ..." when \<open>missing\<close> holds,
    "... extra closing ..." otherwise.
\<close>

datatype validation_error =
    NullOrUndefined
  | TooLong nat nat
  | EmptyExpression
  | InvalidCharacters
  | DisallowedPattern
  | ClosingBeforeOpening delimiter
  | Unbalanced delimiter bool

record ValidationResult =
  valid :: bool
  error :: "validation_error option"
  sanitized :: "jsstring option"

definition invalid :: "validation_error \<Rightarrow> ValidationResult" where
  "invalid e = \<lparr>valid = False, error = Some e, sanitized = None\<rparr>"

definition MAX_LENGTH :: nat where
  "MAX_LENGTH = 10000"

text \<open>The class of \<open>ALLOWED_CHARS\<close>: \<open>[0-9a-zA-Z+\-*\/^().,;\s=<>!&|%{}[\]]\<close>.\<close>

definition allowed_char :: "jschar \<Rightarrow> bool" where
  "allowed_char c \<longleftrightarrow>
     isDigit c \<or> isLower c \<or> isUpper c \<or> c \<in> set (js ''+-*/^().,;'') \<or> isWhiteSpace c \<or>
     c \<in> set (js ''=<>!&|%{}[]'')"

text \<open>\<open>/^[...]+$/\<close>\<close>

definition ALLOWED_CHARS :: rx where
  "ALLOWED_CHARS = Cat (Cls allowed_char) (Star (Cls allowed_char))"

text \<open>
  \<open>DANGEROUS_PATTERNS\<close>, in the order of the source:
  \<open>/system\s*\(/i\<close>, \<open>/exec\s*\(/i\<close>, the backtick, \<open>/\$\(/\<close>, \<open>/>\s*[\/\w]/\<close>,
  \<open>/<\s*[\/\w]/\<close>, \<open>/\|\s*[\/\w]/\<close> and
  \<open>/;\s*(?:bash|sh|rm|cat|ls|pwd|chmod|chown)/i\<close>.
\<close>

definition redirect_pattern :: "char \<Rightarrow> rx" where
  "redirect_pattern ch = Cat (lit ch) (Cat rx_s_star (Cls isPathOrWord))"

definition shell_commands :: rx where
  "shell_commands =
     Alt (word_i ''bash'') (Alt (word_i ''sh'') (Alt (word_i ''rm'') (Alt (word_i ''cat'')
       (Alt (word_i ''ls'') (Alt (word_i ''pwd'') (Alt (word_i ''chmod'') (word_i ''chown'')))))))"

definition DANGEROUS_PATTERNS :: "rx list" where
  "DANGEROUS_PATTERNS =
     [ Cat (word_i ''system'') (Cat rx_s_star (lit CHR ''('')),
       Cat (word_i ''exec'') (Cat rx_s_star (lit CHR ''('')),
       lit (CHR 0x60),
       Cat (lit CHR ''$'') (lit CHR ''(''),
       redirect_pattern CHR ''>'',
       redirect_pattern CHR ''<'',
       redirect_pattern CHR ''|'',
       Cat (lit CHR '';'') (Cat rx_s_star shell_commands) ]"

text \<open>
  The loop of \<open>validateBCSyntax\<close>: the three counters after each character, with the
  early return as soon as one of them is negative.
\<close>

fun bump :: "jschar \<Rightarrow> char \<Rightarrow> char \<Rightarrow> int \<Rightarrow> int" where
  "bump c opening closing n =
     (let n1 = (if c = of_char opening then n + 1 else n)
      in if c = of_char closing then n1 - 1 else n1)"

fun count_delimiters ::
  "int \<Rightarrow> int \<Rightarrow> int \<Rightarrow> jsstring \<Rightarrow> validation_error + int \<times> int \<times> int" where
  "count_delimiters parenCount braceCount bracketCount [] =
     Inr (parenCount, braceCount, bracketCount)"
| "count_delimiters parenCount braceCount bracketCount (c # cs) =
     (let parenCount' = bump c CHR ''('' CHR '')'' parenCount;
          braceCount' = bump c CHR ''{'' CHR ''}'' braceCount;
          bracketCount' = bump c CHR ''['' CHR '']'' bracketCount
      in if parenCount' < 0 then Inl (ClosingBeforeOpening Paren)
         else if braceCount' < 0 then Inl (ClosingBeforeOpening Brace)
         else if bracketCount' < 0 then Inl (ClosingBeforeOpening Bracket)
         else count_delimiters parenCount' braceCount' bracketCount' cs)"

definition validateBCSyntax :: "jsstring \<Rightarrow> ValidationResult" where
  "validateBCSyntax expression =
     (case count_delimiters 0 0 0 expression of
        Inl e \<Rightarrow> invalid e
      | Inr (parenCount, braceCount, bracketCount) \<Rightarrow>
          if parenCount \<noteq> 0 then invalid (Unbalanced Paren (parenCount > 0))
          else if braceCount \<noteq> 0 then invalid (Unbalanced Brace (braceCount > 0))
          else if bracketCount \<noteq> 0 then invalid (Unbalanced Bracket (bracketCount > 0))
          else \<lparr>valid = True, error = None, sanitized = None\<rparr>)"

text \<open>
  \<open>validate\<close>. Its parameter has the type \<open>string\<close>, so the test \<open>!expression\<close> is the
  test for the empty string.
\<close>

definition validate :: "jsstring \<Rightarrow> ValidationResult" where
  "validate expression =
     (if expression = [] then invalid NullOrUndefined
      else if length expression > MAX_LENGTH
        then invalid (TooLong MAX_LENGTH (length expression))
      else let trimmed = trim expression in
        if trimmed = [] then invalid EmptyExpression
        else if \<not> rx_full ALLOWED_CHARS trimmed then invalid InvalidCharacters
        else if list_ex (\<lambda>pattern. rx_test pattern trimmed) DANGEROUS_PATTERNS
          then invalid DisallowedPattern
        else let validation = validateBCSyntax trimmed in
          if \<not> valid validation then validation
          else \<lparr>valid = True, error = None, sanitized = Some trimmed\<rparr>)"

definition sanitize :: "jsstring \<Rightarrow> jsstring" where
  "sanitize expression = trim expression"

section \<open>Errors (\<open>types.ts\<close>)\<close>

datatype BCErrorCode =
    VALIDATION_ERROR
  | BC_NOT_READY
  | BC_RUNTIME_ERROR
  | BC_TIMEOUT
  | BC_PROCESS_EXIT
  | BC_SPAWN_ERROR
  | INTERNAL_ERROR

text \<open>
  The message texts of the errors that \<open>bc-process.ts\<close> and the pool construct, one
  constructor for each template:
  \<^item> \<open>NotReadyMessage\<close>: "BC process not ready";
  \<^item> \<open>BusyMessage\<close>: "BC process is busy with another calculation";
  \<^item> \<open>TimeoutMessage ms\<close>: "Calculation timeout after ...ms";
  \<^item> \<open>WriteFailedMessage m\<close>: "Failed to write to BC process: ...";
  \<^item> \<open>BCErrorMessage text\<close>: "BC error: ...";
  \<^item> \<open>ExitMessage code signal\<close>: "BC process exited unexpectedly (code: ..., signal: ...)";
  \<^item> \<open>ProcessErrorMessage m\<close>: "BC process error: ...";
  \<^item> \<open>InvalidPrecisionMessage scale\<close>: "Invalid precision: .... Must be between 0 and 100";
  \<^item> \<open>StartFailedMessage m\<close>: "Failed to start BC process: ...";
  \<^item> \<open>PoolNotInitializedMessage\<close>: "BC process pool not initialized";
  \<^item> \<open>NoProcessesMessage\<close>: "No BC processes available after waiting";
  \<^item> \<open>PoolInitFailedMessage m\<close>: "Failed to initialize BC process pool: ...";
  \<^item> \<open>OtherMessage m\<close>: the message of an error thrown by the runtime.
\<close>

datatype error_message =
    NotReadyMessage
  | BusyMessage
  | TimeoutMessage nat
  | WriteFailedMessage jsstring
  | BCErrorMessage jsstring
  | ExitMessage "int option" "jsstring option"
  | ProcessErrorMessage jsstring
  | InvalidPrecisionMessage int
  | StartFailedMessage error_message
  | PoolNotInitializedMessage
  | NoProcessesMessage
  | PoolInitFailedMessage error_message
  | OtherMessage jsstring

record BCCalculatorError =
  message :: error_message
  code :: BCErrorCode

definition bc_error :: "error_message \<Rightarrow> BCErrorCode \<Rightarrow> BCCalculatorError" where
  "bc_error m c = \<lparr>message = m, code = c\<rparr>"

section \<open>The worker (\<open>bc-process.ts\<close>)\<close>

record BCProcessOptions =
  precision :: int
  timeout :: nat
  useMathLibrary :: bool

text \<open>
  The child process behind a worker: its process id, and whether its standard input
  stream exists.
\<close>

record ChildProcess =
  pid :: nat
  stdin :: bool

text \<open>
  A pending request holds the \<open>resolve\<close> and \<open>reject\<close> functions of one promise and the
  deadline timer. The promise is named by a number; the timer armed for it carries the
  same number.
\<close>

record PendingRequest =
  request :: nat
  timer :: "nat option"

record BCProcess =
  process :: "ChildProcess option"
  isReady :: bool
  currentPrecision :: int
  pendingRequest :: "PendingRequest option"
  outputBuffer :: jsstring
  errorBuffer :: jsstring
  options :: BCProcessOptions

text \<open>
  What a worker does to the world outside its fields: it spawns and signals processes,
  writes to them, arms and clears timers, and settles promises. Every operation returns
  the new fields together with the list of these effects, in order.
\<close>

datatype effect =
    Spawn nat
  | Write nat jsstring
  | Kill nat
  | SetTimeout nat nat
  | ClearTimeout nat
  | Resolve nat jsstring
  | Reject nat BCCalculatorError

text \<open>The constructor.\<close>

definition new_BCProcess :: "BCProcessOptions \<Rightarrow> BCProcess" where
  "new_BCProcess opts =
     \<lparr>process = None, isReady = False, currentPrecision = precision opts,
      pendingRequest = None, outputBuffer = [], errorBuffer = [], options = opts\<rparr>"

definition clear_timer :: "PendingRequest \<Rightarrow> effect list" where
  "clear_timer p = (case timer p of Some t \<Rightarrow> [ClearTimeout t] | None \<Rightarrow> [])"

definition resolvePendingRequest :: "jsstring \<Rightarrow> BCProcess \<Rightarrow> BCProcess \<times> effect list" where
  "resolvePendingRequest result w =
     (case pendingRequest w of
        None \<Rightarrow> (w, [])
      | Some p \<Rightarrow> (w\<lparr>pendingRequest := None\<rparr>, clear_timer p @ [Resolve (request p) result]))"

definition rejectPendingRequest ::
  "BCCalculatorError \<Rightarrow> BCProcess \<Rightarrow> BCProcess \<times> effect list" where
  "rejectPendingRequest err w =
     (case pendingRequest w of
        None \<Rightarrow> (w, [])
      | Some p \<Rightarrow> (w\<lparr>pendingRequest := None\<rparr>, clear_timer p @ [Reject (request p) err]))"

definition isAvailable :: "BCProcess \<Rightarrow> bool" where
  "isAvailable w \<longleftrightarrow> isReady w \<and> pendingRequest w = None \<and> process w \<noteq> None"

text \<open>\<open>kill\<close>: an exception of \<open>process.kill('SIGTERM')\<close> is ignored.\<close>

definition kill :: "BCProcess \<Rightarrow> BCProcess \<times> effect list" where
  "kill w =
     (case process w of
        None \<Rightarrow> (w, [])
      | Some c \<Rightarrow> (w\<lparr>process := None, isReady := False\<rparr>, [Kill (pid c)]))"

text \<open>\<open>String.prototype.split('\n')\<close>: the pieces between the line feeds, at least one.\<close>

fun split_nl :: "jsstring \<Rightarrow> jsstring list" where
  "split_nl [] = [[]]"
| "split_nl (c # cs) =
     (if c = 10 then [] # split_nl cs
      else (c # hd (split_nl cs)) # tl (split_nl cs))"

text \<open>
  The handlers that \<open>setupHandlers\<close> installs. \<open>data\<close> is the text of the chunk
  (\<open>data.toString()\<close>).
\<close>

definition on_stdout :: "jsstring \<Rightarrow> BCProcess \<Rightarrow> BCProcess \<times> effect list" where
  "on_stdout data w =
     (let buffer = outputBuffer w @ data;
          lines = split_nl buffer
      in if length lines \<ge> 2 then
           let w1 = w\<lparr>outputBuffer := last lines\<rparr>;
               results = filter (\<lambda>line. trim line \<noteq> []) (butlast lines)
           in if results \<noteq> [] \<and> pendingRequest w1 \<noteq> None
              then resolvePendingRequest (trim (last results)) w1
              else (w1, [])
         else (w\<lparr>outputBuffer := buffer\<rparr>, []))"

definition on_stderr :: "jsstring \<Rightarrow> BCProcess \<Rightarrow> BCProcess \<times> effect list" where
  "on_stderr data w =
     (let errorText = trim data;
          w1 = w\<lparr>errorBuffer := errorBuffer w @ errorText @ [10]\<rparr>
      in if errorText \<noteq> [] \<and> pendingRequest w1 \<noteq> None
         then rejectPendingRequest (bc_error (BCErrorMessage errorText) BC_RUNTIME_ERROR) w1
         else (w1, []))"

definition on_exit :: "int option \<Rightarrow> jsstring option \<Rightarrow> BCProcess \<Rightarrow> BCProcess \<times> effect list" where
  "on_exit exit_code signal w =
     (let w1 = w\<lparr>isReady := False\<rparr>
      in if pendingRequest w1 \<noteq> None
         then rejectPendingRequest (bc_error (ExitMessage exit_code signal) BC_PROCESS_EXIT) w1
         else (w1, []))"

definition on_error :: "jsstring \<Rightarrow> BCProcess \<Rightarrow> BCProcess \<times> effect list" where
  "on_error m w =
     (let w1 = w\<lparr>isReady := False\<rparr>
      in if pendingRequest w1 \<noteq> None
         then rejectPendingRequest (bc_error (ProcessErrorMessage m) BC_SPAWN_ERROR) w1
         else (w1, []))"

text \<open>The callback of the deadline timer that \<open>evaluate\<close> arms.\<close>

definition on_timeout :: "nat \<Rightarrow> BCProcess \<Rightarrow> BCProcess \<times> effect list" where
  "on_timeout timeoutMs w =
     (let (w1, e1) = rejectPendingRequest (bc_error (TimeoutMessage timeoutMs) BC_TIMEOUT) w;
          (w2, e2) = kill w1
      in (w2, e1 @ e2))"

text \<open>
  \<open>evaluate\<close>. The promise it returns is named \<open>rid\<close>; an exception thrown before the
  promise is created rejects it. \<open>write_error\<close> is the message of the exception of
  \<open>stdin.write\<close>, when it throws.
\<close>

definition evaluate ::
  "nat \<Rightarrow> jsstring \<Rightarrow> nat option \<Rightarrow> jsstring option \<Rightarrow> BCProcess \<Rightarrow> BCProcess \<times> effect list" where
  "evaluate rid expression timeout_arg write_error w =
     (if \<not> isReady w \<or> process w = None \<or> \<not> stdin (the (process w))
        then (w, [Reject rid (bc_error NotReadyMessage BC_NOT_READY)])
      else if pendingRequest w \<noteq> None
        then (w, [Reject rid (bc_error BusyMessage BC_NOT_READY)])
      else
        let timeoutMs = (case timeout_arg of Some t \<Rightarrow> t | None \<Rightarrow> timeout (options w));
            w1 = w\<lparr>pendingRequest := Some \<lparr>request = rid, timer = None\<rparr>\<rparr>;
            w2 = w1\<lparr>outputBuffer := [], errorBuffer := []\<rparr>;
            w3 = w2\<lparr>pendingRequest := Some \<lparr>request = rid, timer = Some rid\<rparr>\<rparr>
        in case write_error of
             None \<Rightarrow>
               (w3, [SetTimeout rid timeoutMs, Write (pid (the (process w))) (expression @ [10])])
           | Some m \<Rightarrow>
               (let (w4, e4) =
                      rejectPendingRequest (bc_error (WriteFailedMessage m) INTERNAL_ERROR) w3
                in (w4, SetTimeout rid timeoutMs # e4)))"

text \<open>The decimal digits of a number, as in a template string.\<close>

fun decimal :: "nat \<Rightarrow> jsstring" where
  "decimal n = (if n < 10 then [48 + n] else decimal (n div 10) @ [48 + n mod 10])"

text \<open>
  \<open>setPrecision\<close> up to its \<open>await\<close>, and the assignment that follows when the awaited
  evaluation has been resolved.
\<close>

definition setPrecision ::
  "nat \<Rightarrow> int \<Rightarrow> jsstring option \<Rightarrow> BCProcess \<Rightarrow> BCProcess \<times> effect list" where
  "setPrecision rid scale write_error w =
     (if scale < 0 \<or> scale > 100
        then (w, [Reject rid (bc_error (InvalidPrecisionMessage scale) VALIDATION_ERROR)])
      else evaluate rid (js ''scale='' @ decimal (nat scale)) None write_error w)"

definition setPrecision_resolved :: "int \<Rightarrow> BCProcess \<Rightarrow> BCProcess" where
  "setPrecision_resolved scale w = w\<lparr>currentPrecision := scale\<rparr>"

text \<open>
  What happens to a worker between two of its own steps: its process writes to a stream,
  exits or fails, or the deadline timer fires. A timer that has been cleared does not
  fire: the callback of timer \<open>t\<close> runs only while the pending request still holds \<open>t\<close>.
\<close>

datatype event =
    Stdout jsstring
  | Stderr jsstring
  | Exit "int option" "jsstring option"
  | Error jsstring
  | TimerFired nat nat

fun handle_event :: "event \<Rightarrow> BCProcess \<Rightarrow> BCProcess \<times> effect list" where
  "handle_event (Stdout data) w = on_stdout data w"
| "handle_event (Stderr data) w = on_stderr data w"
| "handle_event (Exit exit_code signal) w = on_exit exit_code signal w"
| "handle_event (Error m) w = on_error m w"
| "handle_event (TimerFired t timeoutMs) w =
     (case pendingRequest w of
        None \<Rightarrow> (w, [])
      | Some p \<Rightarrow> if timer p = Some t then on_timeout timeoutMs w else (w, []))"

fun run_events :: "event list \<Rightarrow> BCProcess \<Rightarrow> BCProcess \<times> effect list" where
  "run_events [] w = (w, [])"
| "run_events (e # es) w =
     (let (w1, e1) = handle_event e w;
          (w2, e2) = run_events es w1
      in (w2, e1 @ e2))"

text \<open>How promise \<open>rid\<close> was settled, if it was: the first effect that settles it.\<close>

fun settled :: "nat \<Rightarrow> effect list \<Rightarrow> (BCCalculatorError + jsstring) option" where
  "settled rid [] = None"
| "settled rid (Resolve r v # es) = (if r = rid then Some (Inr v) else settled rid es)"
| "settled rid (Reject r e # es) = (if r = rid then Some (Inl e) else settled rid es)"
| "settled rid (Spawn c # es) = settled rid es"
| "settled rid (Write c s # es) = settled rid es"
| "settled rid (Kill c # es) = settled rid es"
| "settled rid (SetTimeout t ms # es) = settled rid es"
| "settled rid (ClearTimeout t # es) = settled rid es"

text \<open>
  Waiting for promise \<open>rid\<close>: the events arrive one by one until one of them settles the
  promise; when none of them does, the deadline timer of the request fires. The result
  is \<open>None\<close> when the promise is never settled.
\<close>

fun await ::
  "nat \<Rightarrow> nat \<Rightarrow> event list \<Rightarrow> BCProcess \<Rightarrow>
   BCProcess \<times> effect list \<times> (BCCalculatorError + jsstring) option" where
  "await rid timeoutMs [] w =
     (let (w1, e1) = handle_event (TimerFired rid timeoutMs) w
      in (w1, e1, settled rid e1))"
| "await rid timeoutMs (e # es) w =
     (let (w1, e1) = handle_event e w
      in case settled rid e1 of
           Some r \<Rightarrow> (w1, e1, Some r)
         | None \<Rightarrow>
             (let (w2, e2, r) = await rid timeoutMs es w1
              in (w2, e1 @ e2, r)))"

text \<open>
  What the environment decides during one call of \<open>start\<close>: whether \<open>spawn\<close> throws,
  the child it returns otherwise, the events of the 100 ms wait, whether the write of
  the precision statement throws, and the events that follow it.
\<close>

record start_script =
  spawn_error :: "jsstring option"
  child :: ChildProcess
  early_events :: "event list"
  write_error :: "jsstring option"
  events :: "event list"

definition start_failed :: "error_message \<Rightarrow> BCCalculatorError" where
  "start_failed m = bc_error (StartFailedMessage m) BC_SPAWN_ERROR"

text \<open>
  \<open>start\<close>, in its three stretches: the spawn with \<open>setupHandlers\<close>; after the wait,
  \<open>this.isReady = true\<close> and \<open>setPrecision\<close> up to its \<open>await\<close>; and the rest, once the
  precision request is settled. The result of \<open>start\<close> is \<open>Inr ()\<close> when its promise is
  resolved, \<open>Inl e\<close> when it is rejected with \<open>e\<close>.
\<close>

definition start_spawn :: "start_script \<Rightarrow> BCProcess \<Rightarrow> BCProcess \<times> effect list" where
  "start_spawn env w = (w\<lparr>process := Some (child env)\<rparr>, [Spawn (pid (child env))])"

definition start_ready :: "nat \<Rightarrow> jsstring option \<Rightarrow> BCProcess \<Rightarrow> BCProcess \<times> effect list" where
  "start_ready rid w_error w =
     setPrecision rid (precision (options w)) w_error (w\<lparr>isReady := True\<rparr>)"

definition start_finish ::
  "(BCCalculatorError + jsstring) option \<Rightarrow> BCProcess \<Rightarrow>
   BCProcess \<times> (BCCalculatorError + unit) option" where
  "start_finish r w =
     (case r of
        None \<Rightarrow> (w, None)
      | Some (Inl err) \<Rightarrow> (w, Some (Inl (start_failed (message err))))
      | Some (Inr v) \<Rightarrow> (setPrecision_resolved (precision (options w)) w, Some (Inr ())))"

definition start ::
  "nat \<Rightarrow> start_script \<Rightarrow> BCProcess \<Rightarrow>
   BCProcess \<times> effect list \<times> (BCCalculatorError + unit) option" where
  "start rid env w =
     (case spawn_error env of
        Some m \<Rightarrow> (w, [], Some (Inl (start_failed (OtherMessage m))))
      | None \<Rightarrow>
          let (w1, e1) = start_spawn env w;
              (w2, e2) = run_events (early_events env) w1;
              (w3, e3) = start_ready rid (write_error env) w2
          in case settled rid e3 of
               Some r \<Rightarrow> (let (w5, res) = start_finish (Some r) w3 in (w5, e1 @ e2 @ e3, res))
             | None \<Rightarrow>
                 (let (w4, e4, r) = await rid (timeout (options w3)) (events env) w3;
                      (w5, res) = start_finish r w4
                  in (w5, e1 @ e2 @ e3 @ e4, res)))"

text \<open>
  The calls and events a worker can meet after it has been started. No caller starts a
  worker a second time: the pool calls \<open>start\<close> on the objects it has just created only.
\<close>

datatype action =
    Event event
  | Evaluate nat jsstring "nat option" "jsstring option"
  | SetPrecision nat int "jsstring option"
  | KillCall

fun perform :: "action \<Rightarrow> BCProcess \<Rightarrow> BCProcess \<times> effect list" where
  "perform (Event e) w = handle_event e w"
| "perform (Evaluate rid expression timeout_arg w_error) w =
     evaluate rid expression timeout_arg w_error w"
| "perform (SetPrecision rid scale w_error) w = setPrecision rid scale w_error w"
| "perform KillCall w = kill w"

fun run :: "action list \<Rightarrow> BCProcess \<Rightarrow> BCProcess" where
  "run [] w = w"
| "run (a # as) w = run as (fst (perform a w))"

section \<open>The pool (\<open>bc-process-pool.ts\<close>)\<close>

record ProcessPoolConfig =
  poolSize :: nat
  defaultPrecision :: int
  defaultTimeout :: nat

text \<open>
  The two arrays of the pool hold references to \<open>BCProcess\<close> objects. The objects live
  in a store, a function from references to their fields; \<open>allocated\<close> counts the objects
  created so far, so that it is the next fresh reference.
\<close>

record BCProcessPool =
  objects :: "nat \<Rightarrow> BCProcess"
  allocated :: nat
  processes :: "nat list"
  availableProcesses :: "nat list"
  config :: ProcessPoolConfig
  isInitialized :: bool

text \<open>
  \<open>createProcess\<close>. The new object is reachable by nobody else until \<open>start\<close> has
  settled, so the whole call is one step that happens when \<open>start\<close> settles; what other
  calls do in the meantime is applied to the pool before it. The result is \<open>None\<close> when
  \<open>start\<close> never settles.
\<close>

definition createProcess ::
  "start_script \<Rightarrow> BCProcessPool \<Rightarrow> (BCCalculatorError + nat) option \<times> BCProcessPool" where
  "createProcess env p =
     (let ref = allocated p;
          w0 = new_BCProcess \<lparr>precision = defaultPrecision (config p),
                              timeout = defaultTimeout (config p), useMathLibrary = True\<rparr>;
          (w, effs, r) = start 0 env w0;
          p1 = p\<lparr>objects := (objects p)(ref := w), allocated := Suc ref\<rparr>
      in case r of
           None \<Rightarrow> (None, p1)
         | Some (Inl err) \<Rightarrow> (Some (Inl err), p1)
         | Some (Inr u) \<Rightarrow>
             (Some (Inr ref),
              p1\<lparr>processes := processes p1 @ [ref],
                  availableProcesses := availableProcesses p1 @ [ref]\<rparr>))"

definition kill_object :: "nat \<Rightarrow> (nat \<Rightarrow> BCProcess) \<Rightarrow> (nat \<Rightarrow> BCProcess)" where
  "kill_object ref h = h(ref := fst (kill (h ref)))"

definition shutdown :: "BCProcessPool \<Rightarrow> BCProcessPool" where
  "shutdown p =
     p\<lparr>objects := fold kill_object (processes p) (objects p),
       processes := [], availableProcesses := [], isInitialized := False\<rparr>"

definition maxWaitTime :: nat where
  "maxWaitTime = 30000"

definition checkInterval :: nat where
  "checkInterval = 100"

text \<open>
  The polling loop of \<open>acquireProcess\<close>. \<open>sleep t\<close> is what the other calls do to the
  pool during the sleep that begins when \<open>waitedTime\<close> is \<open>t\<close>.
\<close>

function wait_for_process ::
  "(nat \<Rightarrow> BCProcessPool \<Rightarrow> BCProcessPool) \<Rightarrow> nat \<Rightarrow> BCProcessPool \<Rightarrow> BCProcessPool" where
  "wait_for_process sleep waitedTime p =
     (if availableProcesses p = [] \<and> waitedTime < maxWaitTime
      then wait_for_process sleep (waitedTime + checkInterval) (sleep waitedTime p)
      else p)"
  by pat_completeness auto
termination
  by (relation "measure (\<lambda>(sleep, waitedTime, p). maxWaitTime - waitedTime)")
    (auto simp: checkInterval_def)

declare wait_for_process.simps [simp del]

text \<open>
  What the environment decides during one call of \<open>acquireProcess\<close>: what the other
  calls do during each sleep and while the replacement is being started, and how the
  start of the replacement goes.
\<close>

record acquire_env =
  during_sleep :: "nat \<Rightarrow> BCProcessPool \<Rightarrow> BCProcessPool"
  during_replacement :: "BCProcessPool \<Rightarrow> BCProcessPool"
  replacement :: start_script

definition acquireProcess ::
  "acquire_env \<Rightarrow> BCProcessPool \<Rightarrow> (BCCalculatorError + nat) option \<times> BCProcessPool" where
  "acquireProcess env p =
     (if \<not> isInitialized p
        then (Some (Inl (bc_error PoolNotInitializedMessage BC_NOT_READY)), p)
      else
        let p1 = wait_for_process (during_sleep env) 0 p
        in case availableProcesses p1 of
             [] \<Rightarrow> (Some (Inl (bc_error NoProcessesMessage BC_NOT_READY)), p1)
           | ref # rest \<Rightarrow>
               let p2 = p1\<lparr>availableProcesses := rest\<rparr>
               in if \<not> isAvailable (objects p2 ref) then
                    let p3 = p2\<lparr>objects := kill_object ref (objects p2)\<rparr>;
                        p4 = during_replacement env p3
                    in createProcess (replacement env) p4
                  else (Some (Inr ref), p2))"

text \<open>
  \<open>initialize\<close>. The loop makes \<open>poolSize\<close> calls \<open>createProcess(i)\<close>; \<open>script i\<close> is
  how the start of worker \<open>i\<close> goes, and \<open>order\<close> is the order in which the starts
  settle. \<open>Promise.all\<close> is resolved when all calls are, and rejected as soon as one
  call is rejected; the calls that are still running then are not cancelled.
\<close>

record init_env =
  script :: "nat \<Rightarrow> start_script"
  order :: "nat list"

definition settle_order :: "nat list \<Rightarrow> nat \<Rightarrow> nat list" where
  "settle_order ord n = (if sort ord = [0..<n] then ord else [0..<n])"

datatype all_result = AllResolved | Rejected BCCalculatorError "start_script list" | Hangs

fun promise_all :: "start_script list \<Rightarrow> BCProcessPool \<Rightarrow> all_result \<times> BCProcessPool" where
  "promise_all [] p = (AllResolved, p)"
| "promise_all (s # ss) p =
     (case createProcess s p of
        (None, p1) \<Rightarrow> (Hangs, p1)
      | (Some (Inl err), p1) \<Rightarrow> (Rejected err ss, p1)
      | (Some (Inr ref), p1) \<Rightarrow> promise_all ss p1)"

text \<open>
  The result of \<open>initialize\<close> is its outcome, the scripts of the calls that are still
  running when it returns, and the pool at that moment.
\<close>

definition initialize ::
  "init_env \<Rightarrow> BCProcessPool \<Rightarrow>
   (BCCalculatorError + unit) option \<times> start_script list \<times> BCProcessPool" where
  "initialize env p =
     (if isInitialized p then (Some (Inr ()), [], p)
      else
        case promise_all (map (script env) (settle_order (order env) (poolSize (config p)))) p of
          (AllResolved, p1) \<Rightarrow> (Some (Inr ()), [], p1\<lparr>isInitialized := True\<rparr>)
        | (Rejected err rest, p1) \<Rightarrow>
            (Some (Inl (bc_error (PoolInitFailedMessage (message err)) BC_SPAWN_ERROR)),
             rest, shutdown p1)
        | (Hangs, p1) \<Rightarrow> (None, [], p1))"

text \<open>The calls that were still running settle, one after the other.\<close>

fun settle_rest :: "start_script list \<Rightarrow> BCProcessPool \<Rightarrow> BCProcessPool" where
  "settle_rest [] p = p"
| "settle_rest (s # ss) p = settle_rest ss (snd (createProcess s p))"

text \<open>The constructor.\<close>

definition new_BCProcessPool :: "ProcessPoolConfig \<Rightarrow> BCProcessPool" where
  "new_BCProcessPool cfg =
     \<lparr>objects = (\<lambda>ref. new_BCProcess \<lparr>precision = defaultPrecision cfg,
                                          timeout = defaultTimeout cfg, useMathLibrary = True\<rparr>),
      allocated = 0, processes = [], availableProcesses = [], config = cfg,
      isInitialized = False\<rparr>"

section \<open>Notions used in the statements\<close>

text \<open>
  What an event does to a worker that holds the pending request \<open>p\<close>: it changes the
  buffers only, or it resolves the request, or it rejects the request.
\<close>

definition event_outcome :: "PendingRequest \<Rightarrow> BCProcess \<Rightarrow> BCProcess \<times> effect list \<Rightarrow> bool" where
  "event_outcome p w r \<longleftrightarrow>
     (\<exists>ob eb. r = (w\<lparr>outputBuffer := ob, errorBuffer := eb\<rparr>, [])) \<or>
     (\<exists>ob v. r = (w\<lparr>outputBuffer := ob, pendingRequest := None\<rparr>,
                   clear_timer p @ [Resolve (request p) v])) \<or>
     (\<exists>w' err rest. r = (w', clear_timer p @ Reject (request p) err # rest) \<and>
        pendingRequest w' = None \<and> options w' = options w)"


text \<open>
  The state in which \<open>evaluate\<close> leaves a worker when it accepts a call: the worker is
  ready, has its process, and holds request \<open>rid\<close> with its timer.
\<close>

definition waiting :: "nat \<Rightarrow> BCProcess \<Rightarrow> bool" where
  "waiting rid w \<longleftrightarrow>
     isReady w \<and> process w \<noteq> None \<and> pendingRequest w = Some \<lparr>request = rid, timer = Some rid\<rparr>"

text \<open>The code of the error with which promise \<open>rid\<close> was rejected, if it was.\<close>

definition failure_code :: "nat \<Rightarrow> effect list \<Rightarrow> BCErrorCode option" where
  "failure_code rid effs =
     (case settled rid effs of Some (Inl err) \<Rightarrow> Some (code err) | _ \<Rightarrow> None)"

section \<open>Example states\<close>

text \<open>
  The states and scripts at which the theorems below are instantiated: the options the
  server gives its pool, a child process, a worker that has been started and is idle, the
  same worker with request 1 pending, and a start during which the process answers the
  precision statement with a line of output.
\<close>

definition example_options :: BCProcessOptions where
  "example_options = \<lparr>precision = 20, timeout = 30000, useMathLibrary = True\<rparr>"

definition example_config :: ProcessPoolConfig where
  "example_config = \<lparr>poolSize = 2, defaultPrecision = 20, defaultTimeout = 30000\<rparr>"

definition example_child :: ChildProcess where
  "example_child = \<lparr>pid = 4242, stdin = True\<rparr>"

definition idle_worker :: BCProcess where
  "idle_worker =
     \<lparr>process = Some example_child, isReady = True, currentPrecision = 20,
      pendingRequest = None, outputBuffer = [], errorBuffer = [], options = example_options\<rparr>"

definition busy_worker :: BCProcess where
  "busy_worker = idle_worker\<lparr>pendingRequest := Some \<lparr>request = 1, timer = Some 1\<rparr>\<rparr>"

definition good_start :: start_script where
  "good_start =
     \<lparr>spawn_error = None, child = example_child, early_events = [], write_error = None,
      events = [Stdout (js ''20'' @ [10])]\<rparr>"

definition second_child :: ChildProcess where
  "second_child = \<lparr>pid = 4243, stdin = True\<rparr>"

definition second_start :: start_script where
  "second_start = good_start\<lparr>child := second_child\<rparr>"

definition failing_start :: start_script where
  "failing_start = good_start\<lparr>events := [Stderr (js ''warning'' @ [10])]\<rparr>"

text \<open>
  A worker whose process has exited, a pool that still lists it as available, and an
  environment in which no other call touches the pool and the replacement starts well.
\<close>

definition crashed_worker :: BCProcess where
  "crashed_worker = idle_worker\<lparr>isReady := False\<rparr>"

definition crashed_pool :: BCProcessPool where
  "crashed_pool =
     \<lparr>objects = (\<lambda>ref. crashed_worker), allocated = 1, processes = [0],
      availableProcesses = [0], config = example_config, isInitialized = True\<rparr>"

definition quiet_env :: acquire_env where
  "quiet_env =
     \<lparr>during_sleep = (\<lambda>t p. p), during_replacement = (\<lambda>p. p), replacement = second_start\<rparr>"

text \<open>
  An initialization of two workers in which the start of worker 0 fails first and the
  start of worker 1 succeeds afterwards.
\<close>

definition race_env :: init_env where
  "race_env = \<lparr>script = (\<lambda>i. if i = 0 then failing_start else second_start), order = [0, 1]\<rparr>"

section \<open>Properties of the validator\<close>

subsection \<open>The matcher computes the meaning of an expression\<close>

inductive_simps matches_Cls: "matches (Cls p) w"
inductive_simps matches_Cat: "matches (Cat r s) w"
inductive_simps matches_Alt: "matches (Alt r s) w"
inductive_simps matches_Eps: "matches Eps w"
inductive_simps matches_Nul: "matches Nul w"

lemma nullable_matches: "nullable r \<longleftrightarrow> matches r []"
  by (induction r) (auto simp: matches_Cls matches_Cat matches_Alt matches_Eps matches_Nul intro: m_star0)

lemma star_unfold_aux:
  "matches q x \<Longrightarrow> q = Star r \<Longrightarrow> x = c # w \<Longrightarrow>
   \<exists>u v. w = u @ v \<and> matches r (c # u) \<and> matches (Star r) v"
proof (induction arbitrary: w rule: matches.induct)
  case (m_star r' u v)
  show ?case
  proof (cases u)
    case Nil
    with m_star show ?thesis by simp
  next
    case (Cons a u')
    with m_star.prems m_star.hyps(1,2) show ?thesis by auto
  qed
qed simp_all

lemma matches_Star_Cons:
  "matches (Star r) (c # w) \<longleftrightarrow> (\<exists>u v. w = u @ v \<and> matches r (c # u) \<and> matches (Star r) v)"
proof
  assume "matches (Star r) (c # w)"
  then show "\<exists>u v. w = u @ v \<and> matches r (c # u) \<and> matches (Star r) v"
    by (rule star_unfold_aux) simp_all
next
  assume "\<exists>u v. w = u @ v \<and> matches r (c # u) \<and> matches (Star r) v"
  then obtain u v where "w = u @ v" "matches r (c # u)" "matches (Star r) v" by blast
  then show "matches (Star r) (c # w)"
    using m_star [of r "c # u" v] by simp
qed

lemma deriv_matches: "matches (deriv c r) w \<longleftrightarrow> matches r (c # w)"
proof (induction r arbitrary: w)
  case (Cls p)
  show ?case by (auto simp: matches_Cls matches_Eps matches_Nul)
next
  case (Cat r s)
  show ?case
    by (auto simp: matches_Cat matches_Alt Cat nullable_matches Cons_eq_append_conv)
next
  case (Alt r s)
  then show ?case by (simp add: matches_Alt)
next
  case (Star r)
  show ?case by (simp add: matches_Cat matches_Star_Cons Star)
next
  case Eps
  show ?case by (simp add: matches_Eps matches_Nul)
next
  case Nul
  show ?case by (simp add: matches_Nul)
qed

lemma rx_full_matches: "rx_full r w \<longleftrightarrow> matches r w"
  by (induction w arbitrary: r) (simp_all add: nullable_matches deriv_matches)

lemma match_prefix_matches: "match_prefix r w \<longleftrightarrow> (\<exists>u v. w = u @ v \<and> matches r u)"
proof (induction w arbitrary: r)
  case Nil
  show ?case by (simp add: nullable_matches)
next
  case (Cons c w)
  show ?case
    by (auto simp: Cons nullable_matches deriv_matches Cons_eq_append_conv)
qed

lemma rx_test_matches: "rx_test r w \<longleftrightarrow> (\<exists>l m t. w = l @ m @ t \<and> matches r m)"
proof (induction w)
  case Nil
  show ?case by (simp add: nullable_matches)
next
  case (Cons c w)
  have "(\<exists>l m t. c # w = l @ m @ t \<and> matches r m) \<longleftrightarrow>
        (\<exists>m t. c # w = m @ t \<and> matches r m) \<or> (\<exists>l m t. w = l @ m @ t \<and> matches r m)"
    (is "?L \<longleftrightarrow> ?A \<or> ?B")
  proof
    assume ?L
    then obtain l m t where h: "c # w = l @ m @ t" "matches r m" by blast
    show "?A \<or> ?B"
    proof (cases l)
      case Nil
      with h show ?thesis by auto
    next
      case (Cons a l')
      with h have "w = l' @ m @ t" by simp
      with h(2) show ?thesis by blast
    qed
  next
    assume "?A \<or> ?B"
    then show ?L
    proof
      assume ?A
      then obtain m t where "c # w = [] @ m @ t" "matches r m" by auto
      then show ?L by blast
    next
      assume ?B
      then obtain l m t where "c # w = (c # l) @ m @ t" "matches r m" by auto
      then show ?L by blast
    qed
  qed
  then show ?case
    using Cons match_prefix_matches [of r "c # w"] by simp
qed

lemma matches_Star_Cls: "matches (Star (Cls p)) w \<longleftrightarrow> list_all p w"
proof (induction w)
  case Nil
  show ?case by (simp add: m_star0)
next
  case (Cons c w)
  show ?case by (auto simp: matches_Star_Cons matches_Cls Cons)
qed

lemma matches_Cat_Cls:
  "matches (Cat (Cls p) s) w \<longleftrightarrow> (\<exists>c v. w = c # v \<and> p c \<and> matches s v)"
proof
  assume "matches (Cat (Cls p) s) w"
  then show "\<exists>c v. w = c # v \<and> p c \<and> matches s v"
    by (auto simp: matches_Cat matches_Cls)
next
  assume "\<exists>c v. w = c # v \<and> p c \<and> matches s v"
  then obtain c v where "w = [c] @ v" "p c" "matches s v" by auto
  then show "matches (Cat (Cls p) s) w"
    using m_cat [OF m_cls, of p c s v] by simp
qed

lemma rx_full_ALLOWED_CHARS:
  "rx_full ALLOWED_CHARS s \<longleftrightarrow> s \<noteq> [] \<and> list_all allowed_char s"
  by (cases s) (simp_all add: rx_full_matches ALLOWED_CHARS_def matches_Cat_Cls matches_Star_Cls)

subsection \<open>Trimming\<close>

lemma trim_decompose:
  "\<exists>l r. e = l @ trim e @ r \<and> list_all isWhiteSpace l \<and> list_all isWhiteSpace r"
proof -
  let ?d = "dropWhile isWhiteSpace e"
  have 1: "e = takeWhile isWhiteSpace e @ ?d" by simp
  have "rev (takeWhile isWhiteSpace (rev ?d) @ dropWhile isWhiteSpace (rev ?d)) =
      rev (dropWhile isWhiteSpace (rev ?d)) @ rev (takeWhile isWhiteSpace (rev ?d))"
    by (rule rev_append)
  then have "rev (rev ?d) = trim e @ rev (takeWhile isWhiteSpace (rev ?d))"
    by (simp only: takeWhile_dropWhile_id trim_def)
  then have 2: "?d = trim e @ rev (takeWhile isWhiteSpace (rev ?d))"
    by (simp only: rev_rev_ident)
  have 3: "list_all isWhiteSpace (takeWhile isWhiteSpace e)"
    by (simp add: list_all_iff) (meson set_takeWhileD)
  have 4: "list_all isWhiteSpace (rev (takeWhile isWhiteSpace (rev ?d)))"
    by (simp add: list_all_iff) (meson set_takeWhileD)
  from 1 2 have "e = takeWhile isWhiteSpace e @ trim e @ rev (takeWhile isWhiteSpace (rev ?d))"
    by simp
  with 3 4 show ?thesis by blast
qed

lemma trim_ends:
  assumes "trim e \<noteq> []"
  shows "\<not> isWhiteSpace (hd (trim e)) \<and> \<not> isWhiteSpace (last (trim e))"
proof -
  let ?d = "dropWhile isWhiteSpace e"
  let ?t = "dropWhile isWhiteSpace (rev ?d)"
  from assms have t: "?t \<noteq> []" by (simp add: trim_def)
  then have a: "\<not> isWhiteSpace (hd ?t)" by (rule hd_dropWhile)
  have l: "last (trim e) = hd ?t" using t by (simp add: trim_def last_rev)
  have d: "?d \<noteq> []"
  proof
    assume "?d = []"
    with t show False by (metis dropWhile.simps(1) rev.simps(1))
  qed
  then have b: "\<not> isWhiteSpace (hd ?d)" by (rule hd_dropWhile)
  have "last (rev ?d) = hd ?d" using d by (simp add: last_rev)
  from t obtain x xs where x: "?t = x # xs" by (cases ?t) auto
  have "rev ?d = takeWhile isWhiteSpace (rev ?d) @ ?t" by simp
  then have "last (rev ?d) = last ?t" using t by (metis last_appendR)
  then have "hd ?d = last ?t" using d by (simp add: last_rev)
  then have "hd (trim e) = hd ?d" using t by (simp add: trim_def hd_rev)
  with a b l show ?thesis by simp
qed

lemma dropWhile_keep:
  "\<not> P c \<Longrightarrow> dropWhile P (l @ c # m) = dropWhile P l @ c # m"
  by (induction l) auto

lemma trim_infix:
  assumes "\<not> isWhiteSpace c" "\<not> isWhiteSpace d"
  shows "\<exists>l' r'. trim (l @ [c] @ m @ [d] @ r) = l' @ [c] @ m @ [d] @ r'"
proof -
  let ?P = isWhiteSpace
  have 1: "dropWhile ?P (l @ [c] @ m @ [d] @ r) = dropWhile ?P l @ c # m @ d # r"
    using assms(1) dropWhile_keep [of isWhiteSpace c l "m @ d # r"] by simp
  have "rev (dropWhile ?P l @ c # m @ d # r) = rev r @ d # (rev m @ c # rev (dropWhile ?P l))"
    by simp
  then have "dropWhile ?P (rev (dropWhile ?P l @ c # m @ d # r)) =
      dropWhile ?P (rev r) @ d # (rev m @ c # rev (dropWhile ?P l))"
    using assms(2) dropWhile_keep [of isWhiteSpace d "rev r" "rev m @ c # rev (dropWhile ?P l)"] by simp
  with 1 have "trim (l @ [c] @ m @ [d] @ r) =
      dropWhile ?P l @ [c] @ m @ [d] @ rev (dropWhile ?P (rev r))"
    by (simp add: trim_def)
  then show ?thesis by blast
qed

lemma trim_member:
  assumes "c \<in> set e" "\<not> isWhiteSpace c"
  shows "c \<in> set (trim e)"
proof -
  from trim_decompose obtain l r where
    h: "e = l @ trim e @ r" "list_all isWhiteSpace l" "list_all isWhiteSpace r" by blast
  from assms(1) h(1) have "c \<in> set l \<union> set (trim e) \<union> set r"
    by (metis set_append Un_assoc)
  with h(2,3) assms(2) show ?thesis by (auto simp: list_all_iff)
qed

subsection \<open>What \<open>validate\<close> accepts\<close>

lemma valid_validate:
  "valid (validate e) \<longleftrightarrow>
     e \<noteq> [] \<and> length e \<le> MAX_LENGTH \<and> trim e \<noteq> [] \<and> rx_full ALLOWED_CHARS (trim e) \<and>
     \<not> list_ex (\<lambda>pattern. rx_test pattern (trim e)) DANGEROUS_PATTERNS \<and>
     valid (validateBCSyntax (trim e))"
  by (simp add: validate_def Let_def invalid_def)

lemma validate_valid_result:
  "valid (validate e) \<Longrightarrow> validate e = \<lparr>valid = True, error = None, sanitized = Some (trim e)\<rparr>"
  by (simp add: validate_def Let_def invalid_def split: if_splits)

lemma validate_error:
  "\<not> valid (validate e) \<Longrightarrow> error (validate e) \<noteq> None"
  by (auto simp: validate_def Let_def invalid_def validateBCSyntax_def split: if_splits sum.splits prod.splits)

lemmas char_classes = isWhiteSpace_def isDigit_def isLower_def isUpper_def isWord_def
  isPathOrWord_def allowed_char_def
lemmas pattern_defs = DANGEROUS_PATTERNS_def word_i_def lit_i_def lit_def
  rx_s_star_def redirect_pattern_def shell_commands_def

lemma validate_system: "validate (js ''system(ls)'') = invalid DisallowedPattern"
proof -
  let ?s = "[115, 121, 115, 116, 101, 109, 40, 108, 115, 41] :: jsstring"
  have s: "js ''system(ls)'' = ?s" by (simp add: js_def)
  have t: "trim ?s = ?s" by (simp add: trim_def isWhiteSpace_def)
  have a: "rx_full ALLOWED_CHARS ?s"
    unfolding rx_full_ALLOWED_CHARS by (simp add: char_classes js_def)
  have d: "list_ex (\<lambda>pattern. rx_test pattern ?s) DANGEROUS_PATTERNS"
    by (simp add: pattern_defs char_classes)
  have "validate ?s = invalid DisallowedPattern"
    unfolding validate_def Let_def t using a d by (simp add: MAX_LENGTH_def)
  with s show ?thesis by simp
qed

lemma validate_unbalanced: "validate (js ''(1+2'') = invalid (Unbalanced Paren True)"
proof -
  let ?s = "[40, 49, 43, 50] :: jsstring"
  have s: "js ''(1+2'' = ?s" by (simp add: js_def)
  have t: "trim ?s = ?s" by (simp add: trim_def isWhiteSpace_def)
  have a: "rx_full ALLOWED_CHARS ?s"
    unfolding rx_full_ALLOWED_CHARS by (simp add: char_classes js_def)
  have d: "\<not> list_ex (\<lambda>pattern. rx_test pattern ?s) DANGEROUS_PATTERNS"
    by (simp add: pattern_defs char_classes)
  have b: "validateBCSyntax ?s = invalid (Unbalanced Paren True)"
    by (simp add: validateBCSyntax_def)
  have "validate ?s = invalid (Unbalanced Paren True)"
    unfolding validate_def Let_def t b using a d by (simp add: MAX_LENGTH_def invalid_def)
  with s show ?thesis by simp
qed

lemma validate_assignments:
  "validate (js ''a=5;b=10;a+b'') =
     \<lparr>valid = True, error = None, sanitized = Some (js ''a=5;b=10;a+b'')\<rparr>"
proof -
  let ?s = "[97, 61, 53, 59, 98, 61, 49, 48, 59, 97, 43, 98] :: jsstring"
  have s: "js ''a=5;b=10;a+b'' = ?s" by (simp add: js_def)
  have t: "trim ?s = ?s" by (simp add: trim_def isWhiteSpace_def)
  have a: "rx_full ALLOWED_CHARS ?s"
    unfolding rx_full_ALLOWED_CHARS by (simp add: char_classes js_def)
  have d: "\<not> list_ex (\<lambda>pattern. rx_test pattern ?s) DANGEROUS_PATTERNS"
    by (simp add: pattern_defs char_classes)
  have b: "validateBCSyntax ?s = \<lparr>valid = True, error = None, sanitized = None\<rparr>"
    by (simp add: validateBCSyntax_def)
  have "validate ?s = \<lparr>valid = True, error = None, sanitized = Some ?s\<rparr>"
    unfolding validate_def Let_def t b using a d by (simp add: MAX_LENGTH_def)
  with s show ?thesis by simp
qed

lemma validate_backtick:
  assumes "96 \<in> set e"
  shows "\<not> valid (validate e)"
proof
  assume "valid (validate e)"
  then have "list_all allowed_char (trim e)"
    by (simp add: valid_validate rx_full_ALLOWED_CHARS)
  moreover have "96 \<in> set (trim e)"
    using assms by (rule trim_member) (simp add: isWhiteSpace_def)
  ultimately have "allowed_char 96" by (simp add: list_all_iff)
  then show False by (simp add: char_classes js_def)
qed

lemma redirect_matches:
  assumes "c = of_char ch" "list_all isWhiteSpace ws" "isPathOrWord d"
  shows "matches (redirect_pattern ch) ([c] @ ws @ [d])"
proof -
  have 1: "matches (lit ch) [c]" using assms(1) by (simp add: lit_def matches_Cls)
  have 2: "matches rx_s_star ws" using assms(2) by (simp add: rx_s_star_def matches_Star_Cls)
  have 3: "matches (Cls isPathOrWord) [d]" using assms(3) by (simp add: matches_Cls)
  show ?thesis unfolding redirect_pattern_def
    by (rule m_cat [OF 1 m_cat [OF 2 3]])
qed

lemma validate_redirect:
  assumes "c \<in> set (js ''|><'')" "list_all isWhiteSpace ws" "isPathOrWord d"
  shows "\<not> valid (validate (l @ [c] @ ws @ [d] @ r))"
proof
  let ?e = "l @ [c] @ ws @ [d] @ r"
  assume v: "valid (validate ?e)"
  from assms(1) have c: "\<not> isWhiteSpace c" by (auto simp: js_def isWhiteSpace_def)
  from assms(3) have d: "\<not> isWhiteSpace d" by (auto simp: char_classes)
  from trim_infix [OF c d] obtain l' r' where t: "trim ?e = l' @ [c] @ ws @ [d] @ r'"
    by blast
  have m: "redirect_pattern CHR ''>'' \<in> set DANGEROUS_PATTERNS"
    "redirect_pattern CHR ''<'' \<in> set DANGEROUS_PATTERNS"
    "redirect_pattern CHR ''|'' \<in> set DANGEROUS_PATTERNS"
    by (simp_all add: DANGEROUS_PATTERNS_def)
  define ch where "ch = (if c = 62 then CHR ''>'' else if c = 60 then CHR ''<'' else CHR ''|'')"
  have ch: "c = of_char ch" "redirect_pattern ch \<in> set DANGEROUS_PATTERNS"
    using assms(1) m by (auto simp: ch_def js_def)
  have "\<exists>l m t. trim ?e = l @ m @ t \<and> matches (redirect_pattern ch) m"
    using redirect_matches [OF ch(1) assms(2,3)] t
    by (rule_tac x = l' in exI, rule_tac x = "[c] @ ws @ [d]" in exI, rule_tac x = r' in exI)
      simp
  then have "rx_test (redirect_pattern ch) (trim ?e)"
    by (simp only: rx_test_matches)
  with ch(2) have "list_ex (\<lambda>pattern. rx_test pattern (trim ?e)) DANGEROUS_PATTERNS"
    unfolding list_ex_iff by blast
  with v show False by (simp add: valid_validate)
qed

text \<open>
  Claim C9. The validator rejects \<open>system(ls)\<close>; rejects every input that contains a
  backtick (code unit 96); rejects every input in which a \<open>|\<close>, \<open>>\<close> or \<open><\<close> is followed,
  after any run of white space, by \<open>/\<close> or a word character; rejects every input longer
  than the maximum of 10000 code units; rejects \<open>(1+2\<close> as unbalanced; and accepts
  \<open>a=5;b=10;a+b\<close>, returning it as the sanitized text.
\<close>

theorem validator_contract:
  "\<not> valid (validate (js ''system(ls)'')) \<and>
   (96 \<in> set e1 \<longrightarrow> \<not> valid (validate e1)) \<and>
   (c \<in> set (js ''|><'') \<and> list_all isWhiteSpace ws \<and> isPathOrWord d \<longrightarrow>
      \<not> valid (validate (l @ [c] @ ws @ [d] @ r))) \<and>
   MAX_LENGTH = 10000 \<and>
   (length e2 > MAX_LENGTH \<longrightarrow> validate e2 = invalid (TooLong MAX_LENGTH (length e2))) \<and>
   validate (js ''(1+2'') = invalid (Unbalanced Paren True) \<and>
   validate (js ''a=5;b=10;a+b'') =
     \<lparr>valid = True, error = None, sanitized = Some (js ''a=5;b=10;a+b'')\<rparr>"
proof -
  have "length e2 > MAX_LENGTH \<longrightarrow> validate e2 = invalid (TooLong MAX_LENGTH (length e2))"
    by (auto simp: validate_def)
  then show ?thesis
    using validate_backtick [of e1] validate_redirect [of c ws d l r]
    by (simp add: validate_system validate_unbalanced validate_assignments invalid_def
        MAX_LENGTH_def)
qed

theorem validator_contract_witness:
  "96 \<in> set [49, 96, 50] \<and> \<not> valid (validate [49, 96, 50]) \<and>
   62 \<in> set (js ''|><'') \<and> list_all isWhiteSpace [32] \<and> isPathOrWord 47 \<and>
   \<not> valid (validate (js ''1'' @ [62] @ [32] @ [47] @ js ''x'')) \<and>
   length (replicate 10001 (49::nat)) > MAX_LENGTH \<and>
   validate (replicate 10001 49) = invalid (TooLong 10000 10001)"
  using validator_contract [of "[49, 96, 50]" 62 "[32]" 47 "js ''1''" "js ''x''" "replicate 10001 49"]
  by (simp add: char_classes js_def MAX_LENGTH_def)

text \<open>
  Claim C10. \<open>validate\<close> rejects, with an error, every input whose trimmed form is empty;
  and whenever it succeeds, the trimmed form is not empty and the sanitized text is the
  trimmed input: the input is some white space, then the sanitized text, then some white
  space, and the sanitized text neither starts nor ends with white space.
\<close>

theorem validate_trims:
  "(trim e = [] \<longrightarrow> \<not> valid (validate e) \<and> error (validate e) \<noteq> None) \<and>
   (valid (validate e) \<longrightarrow>
      trim e \<noteq> [] \<and>
      validate e = \<lparr>valid = True, error = None, sanitized = Some (trim e)\<rparr> \<and>
      sanitize e = trim e \<and>
      (\<exists>l r. e = l @ trim e @ r \<and> list_all isWhiteSpace l \<and> list_all isWhiteSpace r) \<and>
      \<not> isWhiteSpace (hd (trim e)) \<and> \<not> isWhiteSpace (last (trim e)))"
proof -
  have 1: "trim e = [] \<longrightarrow> \<not> valid (validate e) \<and> error (validate e) \<noteq> None"
    using validate_error [of e] by (auto simp: valid_validate)
  have 2: "valid (validate e) \<longrightarrow> trim e \<noteq> []"
    by (simp add: valid_validate)
  show ?thesis
    using 1 2 validate_valid_result [of e] trim_decompose [of e] trim_ends [of e]
    by (simp add: sanitize_def)
qed

theorem validate_trims_witness:
  "trim (js ''  '') = [] \<and> \<not> valid (validate (js ''  '')) \<and>
   validate (js '' 2+2  '') = \<lparr>valid = True, error = None, sanitized = Some (js ''2+2'')\<rparr>"
proof -
  let ?s = "[32, 50, 43, 50, 32, 32] :: jsstring"
  let ?t = "[50, 43, 50] :: jsstring"
  have t: "trim ?s = ?t" by (simp add: trim_def isWhiteSpace_def)
  have a: "rx_full ALLOWED_CHARS ?t"
    unfolding rx_full_ALLOWED_CHARS by (simp add: char_classes js_def)
  have d: "\<not> list_ex (\<lambda>pattern. rx_test pattern ?t) DANGEROUS_PATTERNS"
    by (simp add: pattern_defs char_classes)
  have b: "valid (validateBCSyntax ?t)"
    by (simp add: validateBCSyntax_def)
  have v: "valid (validate ?s)"
    using a d b by (simp add: valid_validate t MAX_LENGTH_def)
  have e: "trim [32, 32] = []" by (simp add: trim_def isWhiteSpace_def)
  show ?thesis
    using validate_trims [of ?s] validate_trims [of "[32, 32]"] v e t
    by (simp add: js_def)
qed

section \<open>Properties of the worker\<close>

subsection \<open>Splitting at line feeds\<close>

lemma split_nl_not_Nil: "split_nl s \<noteq> []"
  by (induction s) auto

lemma split_nl_join:
  "concat (map (\<lambda>l. l @ [10]) (butlast (split_nl s))) @ last (split_nl s) = s"
proof (induction s)
  case Nil
  show ?case by simp
next
  case (Cons c cs)
  obtain x xs where x: "split_nl cs = x # xs"
    using split_nl_not_Nil [of cs] by (cases "split_nl cs") auto
  show ?case
  proof (cases "c = 10")
    case True
    with Cons x show ?thesis by simp
  next
    case False
    with Cons x show ?thesis by (cases xs) auto
  qed
qed

lemma split_nl_lines: "l \<in> set (split_nl s) \<Longrightarrow> 10 \<notin> set l"
proof (induction s arbitrary: l)
  case Nil
  then show ?case by simp
next
  case (Cons c cs)
  obtain x xs where x: "split_nl cs = x # xs"
    using split_nl_not_Nil [of cs] by (cases "split_nl cs") auto
  have "10 \<notin> set x" "\<And>y. y \<in> set xs \<Longrightarrow> 10 \<notin> set y"
    using Cons.IH x by auto
  with Cons.prems x show ?case by (auto split: if_splits)
qed

lemma split_nl_single: "length (split_nl s) < 2 \<Longrightarrow> split_nl s = [s]"
proof -
  assume a: "length (split_nl s) < 2"
  obtain x xs where x: "split_nl s = x # xs"
    using split_nl_not_Nil [of s] by (cases "split_nl s") auto
  with a have "xs = []" by (cases xs) auto
  with x split_nl_join [of s] show ?thesis by simp
qed

subsection \<open>The handlers\<close>

lemma resolvePendingRequest_Some:
  "pendingRequest w = Some p \<Longrightarrow>
   resolvePendingRequest v w = (w\<lparr>pendingRequest := None\<rparr>, clear_timer p @ [Resolve (request p) v])"
  by (simp add: resolvePendingRequest_def)

lemma rejectPendingRequest_Some:
  "pendingRequest w = Some p \<Longrightarrow>
   rejectPendingRequest e w = (w\<lparr>pendingRequest := None\<rparr>, clear_timer p @ [Reject (request p) e])"
  by (simp add: rejectPendingRequest_def)

lemma rejectPendingRequest_None:
  "pendingRequest w = None \<Longrightarrow> rejectPendingRequest e w = (w, [])"
  by (simp add: rejectPendingRequest_def)

lemma on_stdout_buffer:
  "outputBuffer (fst (on_stdout data w)) = last (split_nl (outputBuffer w @ data))"
proof (cases "length (split_nl (outputBuffer w @ data)) \<ge> 2")
  case True
  then show ?thesis
    by (auto simp: on_stdout_def Let_def resolvePendingRequest_def split: option.splits)
next
  case False
  then have "split_nl (outputBuffer w @ data) = [outputBuffer w @ data]"
    by (intro split_nl_single) simp
  with False show ?thesis by (simp add: on_stdout_def Let_def)
qed

lemma on_stdout_resolves:
  assumes "pendingRequest w = Some p"
    and "filter (\<lambda>line. trim line \<noteq> []) (butlast (split_nl (outputBuffer w @ data))) \<noteq> []"
  shows "on_stdout data w =
     (w\<lparr>outputBuffer := last (split_nl (outputBuffer w @ data)), pendingRequest := None\<rparr>,
      clear_timer p @
      [Resolve (request p)
        (trim (last (filter (\<lambda>line. trim line \<noteq> [])
           (butlast (split_nl (outputBuffer w @ data))))))])"
proof -
  let ?lines = "split_nl (outputBuffer w @ data)"
  from assms(2) have "butlast ?lines \<noteq> []" by auto
  then have "length ?lines \<ge> 2" by (cases ?lines) (auto simp: Suc_le_eq)
  with assms show ?thesis
    by (simp add: on_stdout_def Let_def resolvePendingRequest_def)
qed

text \<open>
  Claim C7 fails as stated. \<open>kill\<close> leaves the pending request in place, so a chunk that
  arrives after a busy worker has been killed still resolves the request; the worker
  is not back to ready then: it has no process and is not available.
\<close>

theorem stdout_after_kill_counterexample:
  "pendingRequest (fst (kill busy_worker)) = Some \<lparr>request = 1, timer = Some 1\<rparr> \<and>
   snd (on_stdout (js ''4'' @ [10]) (fst (kill busy_worker))) =
     [ClearTimeout 1, Resolve 1 (js ''4'')] \<and>
   pendingRequest (fst (on_stdout (js ''4'' @ [10]) (fst (kill busy_worker)))) = None \<and>
   \<not> isReady (fst (on_stdout (js ''4'' @ [10]) (fst (kill busy_worker)))) \<and>
   \<not> isAvailable (fst (on_stdout (js ''4'' @ [10]) (fst (kill busy_worker))))"
  by (simp add: kill_def on_stdout_def Let_def resolvePendingRequest_def clear_timer_def
      isAvailable_def busy_worker_def idle_worker_def js_def trim_def isWhiteSpace_def)

text \<open>
  Claim C7, amended. For every chunk read from the output stream, the buffer with the chunk
  appended is split at the line feeds: its pieces contain no line feed and, joined by
  line feeds, give back the text; the last piece, the incomplete line, is what the
  buffer retains. When a request is pending and one of the complete lines has non-empty
  trimmed content, the request is resolved with the trimmed last such line, its timer is
  cleared and the pending record is cleared; the ready flag and the process are unchanged,
  so the worker is back to ready exactly when it was ready and still has its process.
\<close>

theorem stdout_framing:
  "(\<forall>l \<in> set (split_nl (outputBuffer w @ data)). 10 \<notin> set l) \<and>
   concat (map (\<lambda>l. l @ [10]) (butlast (split_nl (outputBuffer w @ data)))) @
     last (split_nl (outputBuffer w @ data)) = outputBuffer w @ data \<and>
   outputBuffer (fst (on_stdout data w)) = last (split_nl (outputBuffer w @ data)) \<and>
   (pendingRequest w = Some p \<and>
    filter (\<lambda>line. trim line \<noteq> []) (butlast (split_nl (outputBuffer w @ data))) \<noteq> [] \<longrightarrow>
      snd (on_stdout data w) =
        clear_timer p @
        [Resolve (request p)
          (trim (last (filter (\<lambda>line. trim line \<noteq> [])
             (butlast (split_nl (outputBuffer w @ data))))))] \<and>
      pendingRequest (fst (on_stdout data w)) = None \<and>
      isReady (fst (on_stdout data w)) = isReady w \<and>
      process (fst (on_stdout data w)) = process w \<and>
      isAvailable (fst (on_stdout data w)) = (isReady w \<and> process w \<noteq> None))"
  using split_nl_lines [of _ "outputBuffer w @ data"] split_nl_join [of "outputBuffer w @ data"]
    on_stdout_buffer [of data w] on_stdout_resolves [of w p data]
  by (auto simp: isAvailable_def)

theorem stdout_framing_witness:
  "pendingRequest busy_worker = Some \<lparr>request = 1, timer = Some 1\<rparr> \<and>
   snd (on_stdout (js ''4'' @ [10] @ js '' 5 '' @ [13, 10, 10] @ js ''7'') busy_worker) =
     [ClearTimeout 1, Resolve 1 (js ''5'')] \<and>
   outputBuffer (fst (on_stdout (js ''4'' @ [10] @ js '' 5 '' @ [13, 10, 10] @ js ''7'') busy_worker))
     = js ''7'' \<and>
   isAvailable (fst (on_stdout (js ''4'' @ [10] @ js '' 5 '' @ [13, 10, 10] @ js ''7'') busy_worker))"
  using stdout_framing [of busy_worker "js ''4'' @ [10] @ js '' 5 '' @ [13, 10, 10] @ js ''7''"
      "\<lparr>request = 1, timer = Some 1\<rparr>"]
  by (simp add: busy_worker_def idle_worker_def js_def trim_def isWhiteSpace_def clear_timer_def)

lemma evaluate_accepted:
  assumes "isReady w" "process w = Some c" "stdin c" "pendingRequest w = None"
  shows "evaluate rid expression timeout_arg None w =
     (w\<lparr>pendingRequest := Some \<lparr>request = rid, timer = Some rid\<rparr>,
        outputBuffer := [], errorBuffer := []\<rparr>,
      [SetTimeout rid (case timeout_arg of Some t \<Rightarrow> t | None \<Rightarrow> timeout (options w)),
       Write (pid c) (expression @ [10])])"
  using assms by (simp add: evaluate_def Let_def)

lemma evaluate_write_fails:
  assumes "isReady w" "process w = Some c" "stdin c" "pendingRequest w = None"
  shows "evaluate rid expression timeout_arg (Some m) w =
     (w\<lparr>pendingRequest := None, outputBuffer := [], errorBuffer := []\<rparr>,
      [SetTimeout rid (case timeout_arg of Some t \<Rightarrow> t | None \<Rightarrow> timeout (options w)),
       ClearTimeout rid,
       Reject rid (bc_error (WriteFailedMessage m) INTERNAL_ERROR)])"
  using assms by (simp add: evaluate_def Let_def rejectPendingRequest_def clear_timer_def)

lemma evaluate_refused:
  assumes "pendingRequest w \<noteq> None"
  shows "evaluate rid expression timeout_arg w_error w =
     (w, [Reject rid (bc_error
        (if isReady w \<and> process w \<noteq> None \<and> stdin (the (process w))
         then BusyMessage else NotReadyMessage) BC_NOT_READY)])"
  using assms by (auto simp: evaluate_def)

subsection \<open>A worker without a process stays unavailable\<close>

lemma process_rejectPendingRequest [simp]:
  "process (fst (rejectPendingRequest e w)) = process w"
  by (simp add: rejectPendingRequest_def split: option.splits)

lemma process_resolvePendingRequest [simp]:
  "process (fst (resolvePendingRequest v w)) = process w"
  by (simp add: resolvePendingRequest_def split: option.splits)

lemma process_kill_None: "process w = None \<Longrightarrow> process (fst (kill w)) = None"
  by (simp add: kill_def)

lemma process_kill [simp]: "process (fst (kill w)) = None"
  by (simp add: kill_def split: option.splits)

lemma process_on_timeout [simp]: "process (fst (on_timeout ms w)) = None"
  by (simp add: on_timeout_def split: prod.splits) (metis fst_conv process_kill)

lemma process_handle_event:
  "process w = None \<Longrightarrow> process (fst (handle_event e w)) = None"
  by (cases e)
    (auto simp: on_stdout_def on_stderr_def on_exit_def on_error_def Let_def
      rejectPendingRequest_def resolvePendingRequest_def split: option.splits)

lemma process_evaluate:
  "process w = None \<Longrightarrow> process (fst (evaluate rid e t we w)) = None"
  by (simp add: evaluate_def)

lemma process_perform:
  "process w = None \<Longrightarrow> process (fst (perform a w)) = None"
  by (cases a) (simp_all add: process_handle_event process_evaluate setPrecision_def)

lemma process_run: "process w = None \<Longrightarrow> process (run as w) = None"
  by (induction as arbitrary: w) (simp_all add: process_perform)

lemma dead_forever: "process w = None \<Longrightarrow> \<not> isAvailable (run as w)"
  by (simp add: isAvailable_def process_run)

lemma on_timeout_pending:
  assumes "pendingRequest w = Some p"
  shows "on_timeout ms w =
     (fst (kill (w\<lparr>pendingRequest := None\<rparr>)),
      clear_timer p @ [Reject (request p) (bc_error (TimeoutMessage ms) BC_TIMEOUT)] @
      (case process w of None \<Rightarrow> [] | Some c \<Rightarrow> [Kill (pid c)]))"
  using assms
  by (simp add: on_timeout_def rejectPendingRequest_def kill_def split: option.splits)

subsection \<open>Waiting for a request\<close>

lemma settled_append:
  "settled rid (a @ b) = (case settled rid a of Some r \<Rightarrow> Some r | None \<Rightarrow> settled rid b)"
  by (induction rid a rule: settled.induct) auto

lemma settled_clear_timer [simp]: "settled rid (clear_timer p @ es) = settled rid es"
  by (simp add: clear_timer_def split: option.splits)

lemma on_stdout_outcome:
  assumes "pendingRequest w = Some p"
  shows "event_outcome p w (on_stdout data w)"
proof -
  let ?lines = "split_nl (outputBuffer w @ data)"
  let ?results = "filter (\<lambda>line. trim line \<noteq> []) (butlast ?lines)"
  show ?thesis
  proof (cases "length ?lines \<ge> 2 \<and> ?results \<noteq> []")
    case True
    then have "on_stdout data w =
        (w\<lparr>outputBuffer := last ?lines, pendingRequest := None\<rparr>,
         clear_timer p @ [Resolve (request p) (trim (last ?results))])"
      using assms by (simp add: on_stdout_def Let_def resolvePendingRequest_def)
    then show ?thesis unfolding event_outcome_def by blast
  next
    case False
    then have "on_stdout data w =
        (w\<lparr>outputBuffer := (if length ?lines \<ge> 2 then last ?lines else outputBuffer w @ data),
           errorBuffer := errorBuffer w\<rparr>, [])"
      using assms by (auto simp: on_stdout_def Let_def)
    then show ?thesis unfolding event_outcome_def by blast
  qed
qed

lemma on_stderr_outcome:
  assumes "pendingRequest w = Some p"
  shows "event_outcome p w (on_stderr data w)"
proof (cases "trim data = []")
  case True
  then have "on_stderr data w =
      (w\<lparr>outputBuffer := outputBuffer w, errorBuffer := errorBuffer w @ [10]\<rparr>, [])"
    by (simp add: on_stderr_def Let_def)
  then show ?thesis unfolding event_outcome_def by blast
next
  case False
  then have "on_stderr data w =
      (w\<lparr>errorBuffer := errorBuffer w @ trim data @ [10], pendingRequest := None\<rparr>,
       clear_timer p @ [Reject (request p) (bc_error (BCErrorMessage (trim data)) BC_RUNTIME_ERROR)])"
    using assms by (simp add: on_stderr_def Let_def rejectPendingRequest_def)
  then show ?thesis unfolding event_outcome_def by simp
qed

lemma on_exit_pending:
  assumes "pendingRequest w = Some p"
  shows "on_exit c s w =
     (w\<lparr>isReady := False, pendingRequest := None\<rparr>,
      clear_timer p @ [Reject (request p) (bc_error (ExitMessage c s) BC_PROCESS_EXIT)])"
  using assms by (simp add: on_exit_def Let_def rejectPendingRequest_def)

lemma on_error_pending:
  assumes "pendingRequest w = Some p"
  shows "on_error m w =
     (w\<lparr>isReady := False, pendingRequest := None\<rparr>,
      clear_timer p @ [Reject (request p) (bc_error (ProcessErrorMessage m) BC_SPAWN_ERROR)])"
  using assms by (simp add: on_error_def Let_def rejectPendingRequest_def)

lemma kill_fields [simp]:
  "pendingRequest (fst (kill w)) = pendingRequest w" "options (fst (kill w)) = options w"
  by (simp_all add: kill_def split: option.splits)

lemma handle_event_outcome:
  assumes "pendingRequest w = Some p"
  shows "event_outcome p w (handle_event e w)"
proof (cases e)
  case (Stdout data)
  with on_stdout_outcome [OF assms] show ?thesis by simp
next
  case (Stderr data)
  with on_stderr_outcome [OF assms] show ?thesis by simp
next
  case (Exit c s)
  with on_exit_pending [OF assms] show ?thesis by (simp add: event_outcome_def)
next
  case (Error m)
  with on_error_pending [OF assms] show ?thesis by (simp add: event_outcome_def)
next
  case (TimerFired t ms)
  show ?thesis
  proof (cases "timer p = Some t")
    case True
    with TimerFired assms on_timeout_pending [OF assms, of ms] show ?thesis
      by (simp add: event_outcome_def)
  next
    case False
    with TimerFired assms have "handle_event e w =
        (w\<lparr>outputBuffer := outputBuffer w, errorBuffer := errorBuffer w\<rparr>, [])"
      by simp
    then show ?thesis unfolding event_outcome_def by blast
  qed
qed

lemma options_handle_event [simp]: "options (fst (handle_event e w)) = options w"
proof (cases "pendingRequest w")
  case None
  then show ?thesis
    by (cases e)
      (simp_all add: on_stdout_def on_stderr_def on_exit_def on_error_def Let_def)
next
  case (Some p)
  from handle_event_outcome [OF Some, of e] show ?thesis
    unfolding event_outcome_def by auto
qed

lemma options_run_events [simp]: "options (fst (run_events es w)) = options w"
proof (induction es arbitrary: w)
  case Nil
  show ?case by simp
next
  case (Cons e es)
  have "options (fst (run_events es (fst (handle_event e w)))) = options w"
    by (simp add: Cons)
  then show ?case by (simp add: split_beta Let_def)
qed



lemma handle_event_waiting:
  assumes "waiting rid w"
  shows "(settled rid (snd (handle_event e w)) = None \<and> waiting rid (fst (handle_event e w))) \<or>
         (\<exists>v. settled rid (snd (handle_event e w)) = Some (Inr v) \<and>
            isAvailable (fst (handle_event e w))) \<or>
         (\<exists>err. settled rid (snd (handle_event e w)) = Some (Inl err))"
proof -
  let ?p = "\<lparr>request = rid, timer = Some rid\<rparr>"
  from assms have p: "pendingRequest w = Some ?p" "isReady w" "process w \<noteq> None"
    by (simp_all add: waiting_def)
  from handle_event_outcome [OF p(1), of e] p(2,3) show ?thesis
    unfolding event_outcome_def by (auto simp: waiting_def isAvailable_def p(1))
qed

lemma await_waiting:
  assumes "waiting rid w"
  shows "(\<exists>v. snd (snd (await rid ms es w)) = Some (Inr v) \<and>
            isAvailable (fst (await rid ms es w)) \<and>
            settled rid (fst (snd (await rid ms es w))) = Some (Inr v)) \<or>
         (\<exists>err. snd (snd (await rid ms es w)) = Some (Inl err))"
  using assms
proof (induction es arbitrary: w)
  case Nil
  let ?p = "\<lparr>request = rid, timer = Some rid\<rparr>"
  from Nil have p: "pendingRequest w = Some ?p" by (simp add: waiting_def)
  have "settled rid (snd (on_timeout ms w)) =
      Some (Inl (bc_error (TimeoutMessage ms) BC_TIMEOUT))"
    by (simp add: on_timeout_pending [OF p])
  with p show ?case by (simp add: split_beta)
next
  case (Cons e es)
  obtain w1 e1 where h: "handle_event e w = (w1, e1)" by (cases "handle_event e w")
  from handle_event_waiting [OF Cons.prems, of e] h
  consider (wait) "settled rid e1 = None" "waiting rid w1"
    | (ok) v where "settled rid e1 = Some (Inr v)" "isAvailable w1"
    | (err) err where "settled rid e1 = Some (Inl err)"
    by auto
  then show ?case
  proof cases
    case wait
    from Cons.IH [OF wait(2)] show ?thesis
      using h wait(1) by (auto simp: split_beta settled_append)
  next
    case ok
    with h show ?thesis by simp
  next
    case err
    with h show ?thesis by simp
  qed
qed

lemma options_await [simp]: "options (fst (await rid ms es w)) = options w"
proof (induction es arbitrary: w)
  case Nil
  have "options (fst (handle_event (TimerFired rid ms) w)) = options w"
    by (rule options_handle_event)
  then show ?case by (simp add: split_beta del: handle_event.simps)
next
  case (Cons e es)
  have "options (fst (await rid ms es (fst (handle_event e w)))) = options w"
    by (simp add: Cons)
  then show ?case
    using options_handle_event [of e w] by (auto simp: split_beta split: option.splits)
qed

subsection \<open>\<open>start\<close>\<close>

lemma evaluate_not_ready:
  assumes "\<not> isReady w \<or> process w = None \<or> \<not> stdin (the (process w))"
  shows "evaluate rid expression timeout_arg w_error w =
     (w, [Reject rid (bc_error NotReadyMessage BC_NOT_READY)])"
  using assms by (auto simp: evaluate_def)

lemma evaluate_settled:
  "settled rid (snd (evaluate rid expression timeout_arg w_error w)) =
     (if \<not> isReady w \<or> process w = None \<or> \<not> stdin (the (process w))
        then Some (Inl (bc_error NotReadyMessage BC_NOT_READY))
      else if pendingRequest w \<noteq> None then Some (Inl (bc_error BusyMessage BC_NOT_READY))
      else case w_error of
             None \<Rightarrow> None
           | Some m \<Rightarrow> Some (Inl (bc_error (WriteFailedMessage m) INTERNAL_ERROR)))"
proof (cases "\<not> isReady w \<or> process w = None \<or> \<not> stdin (the (process w))")
  case True
  then show ?thesis by (simp add: evaluate_not_ready)
next
  case ready: False
  then obtain c where c: "isReady w" "process w = Some c" "stdin c" by auto
  show ?thesis
  proof (cases "pendingRequest w")
    case (Some p)
    then show ?thesis using c by (simp add: evaluate_refused)
  next
    case None
    show ?thesis
    proof (cases w_error)
      case no_error: None
      show ?thesis
        using c None by (simp add: no_error evaluate_accepted [OF c None])
    next
      case (Some m)
      show ?thesis
        using c None by (simp add: Some evaluate_write_fails [OF c None])
    qed
  qed
qed

lemma start_ready_unsettled:
  assumes "settled rid (snd (start_ready rid we w)) = None"
  shows "\<exists>c. process w = Some c \<and> stdin c \<and> pendingRequest w = None \<and> we = None \<and>
     0 \<le> precision (options w) \<and> precision (options w) \<le> 100 \<and>
     start_ready rid we w =
       (w\<lparr>isReady := True, pendingRequest := Some \<lparr>request = rid, timer = Some rid\<rparr>,
          outputBuffer := [], errorBuffer := []\<rparr>,
        [SetTimeout rid (timeout (options w)),
         Write (pid c) (js ''scale='' @ decimal (nat (precision (options w))) @ [10])])"
proof -
  let ?w = "w\<lparr>isReady := True\<rparr>"
  let ?s = "precision (options w)"
  have range: "0 \<le> ?s \<and> ?s \<le> 100"
  proof (rule ccontr)
    assume "\<not> ?thesis"
    then have "?s < 0 \<or> ?s > 100" by auto
    then have "settled rid (snd (start_ready rid we w)) \<noteq> None"
      by (simp add: start_ready_def setPrecision_def)
    with assms show False by simp
  qed
  then have sr: "start_ready rid we w =
      evaluate rid (js ''scale='' @ decimal (nat ?s)) None we ?w"
    by (simp add: start_ready_def setPrecision_def)
  with assms have "settled rid (snd (evaluate rid (js ''scale='' @ decimal (nat ?s)) None we ?w)) = None"
    by simp
  then have ok: "process ?w \<noteq> None" "stdin (the (process ?w))" "pendingRequest ?w = None" "we = None"
    unfolding evaluate_settled by (auto split: if_splits option.splits)
  then obtain c where c: "process ?w = Some c" "stdin c" by auto
  have "isReady ?w" by simp
  from evaluate_accepted [OF this c ok(3), of rid "js ''scale='' @ decimal (nat ?s)" None]
  have "start_ready rid we w =
       (w\<lparr>isReady := True, pendingRequest := Some \<lparr>request = rid, timer = Some rid\<rparr>,
          outputBuffer := [], errorBuffer := []\<rparr>,
        [SetTimeout rid (timeout (options w)),
         Write (pid c) (js ''scale='' @ decimal (nat (precision (options w))) @ [10])])"
    using sr ok(4) by simp
  with c ok range show ?thesis by simp
qed

lemma start_ready_not_resolved:
  "settled rid (snd (start_ready rid we w)) \<noteq> Some (Inr v)"
proof (cases "precision (options w) < 0 \<or> precision (options w) > 100")
  case True
  then show ?thesis by (simp add: start_ready_def setPrecision_def)
next
  case False
  then have "start_ready rid we w =
      evaluate rid (js ''scale='' @ decimal (nat (precision (options w)))) None we
        (w\<lparr>isReady := True\<rparr>)"
    by (simp add: start_ready_def setPrecision_def)
  then show ?thesis by (simp add: evaluate_settled split: option.splits)
qed

lemma evaluate_isReady [simp]: "isReady (fst (evaluate rid e t we w)) = isReady w"
proof (cases "\<not> isReady w \<or> process w = None \<or> \<not> stdin (the (process w))")
  case True
  then show ?thesis by (simp add: evaluate_not_ready)
next
  case ready: False
  then obtain c where c: "isReady w" "process w = Some c" "stdin c" by auto
  show ?thesis
  proof (cases "pendingRequest w")
    case (Some p)
    then show ?thesis by (simp add: evaluate_refused)
  next
    case None
    show ?thesis
      by (cases we) (simp_all add: evaluate_accepted [OF c None] evaluate_write_fails [OF c None])
  qed
qed


lemma options_start_ready [simp]: "options (fst (start_ready rid we w)) = options w"
proof (cases "settled rid (snd (start_ready rid we w))")
  case None
  from start_ready_unsettled [OF None] show ?thesis by auto
next
  case (Some r)
  show ?thesis
  proof (cases "precision (options w) < 0 \<or> precision (options w) > 100")
    case True
    then show ?thesis by (simp add: start_ready_def setPrecision_def)
  next
    case False
    let ?w = "w\<lparr>isReady := True\<rparr>"
    from False have sr: "start_ready rid we w =
        evaluate rid (js ''scale='' @ decimal (nat (precision (options w)))) None we ?w"
      by (simp add: start_ready_def setPrecision_def)
    show ?thesis
    proof (cases "process ?w = None \<or> \<not> stdin (the (process ?w))")
      case True
      then show ?thesis unfolding sr by (simp add: evaluate_not_ready)
    next
      case ready: False
      then obtain c where c: "isReady ?w" "process ?w = Some c" "stdin c" by auto
      show ?thesis
      proof (cases "pendingRequest ?w")
        case (Some p)
        then show ?thesis unfolding sr by (simp add: evaluate_refused)
      next
        case None
        show ?thesis unfolding sr
          by (cases we)
            (simp_all add: evaluate_accepted [OF c None] evaluate_write_fails [OF c None])
      qed
    qed
  qed
qed

lemma settled_Inr_mem: "settled rid es = Some (Inr v) \<Longrightarrow> Resolve rid v \<in> set es"
  by (induction rid es rule: settled.induct) (auto split: if_splits)

lemma process_on_stdout [simp]: "process (fst (on_stdout d w)) = process w"
  by (simp add: on_stdout_def Let_def)

lemma process_on_stderr [simp]: "process (fst (on_stderr d w)) = process w"
  by (simp add: on_stderr_def Let_def)

lemma process_on_exit [simp]: "process (fst (on_exit c s w)) = process w"
  by (simp add: on_exit_def Let_def)

lemma process_on_error [simp]: "process (fst (on_error m w)) = process w"
  by (simp add: on_error_def Let_def)

lemma process_handle_event_cases:
  "process (fst (handle_event e w)) = process w \<or> process (fst (handle_event e w)) = None"
  by (cases e) (simp_all split: option.splits)

lemma process_run_events_cases:
  "process (fst (run_events es w)) = process w \<or> process (fst (run_events es w)) = None"
proof (induction es arbitrary: w)
  case Nil
  show ?case by simp
next
  case (Cons e es)
  from Cons [of "fst (handle_event e w)"] process_handle_event_cases [of e w]
  show ?case by (auto simp: split_beta)
qed

lemma start_spawn_fails:
  "spawn_error env = Some m \<Longrightarrow>
   start rid env w = (w, [], Some (Inl (start_failed (OtherMessage m))))"
  by (simp add: start_def)

lemma start_sync:
  assumes "spawn_error env = None" "start_spawn env w = (w1, e1)"
    "run_events (early_events env) w1 = (w2, e2)"
    "start_ready rid (write_error env) w2 = (w3, e3)"
    "settled rid e3 = Some r"
  shows "start rid env w =
     (fst (start_finish (Some r) w3), e1 @ e2 @ e3, snd (start_finish (Some r) w3))"
  unfolding start_def
  by (simp only: assms Let_def prod.case option.case) (simp add: case_prod_beta)

lemma start_async:
  assumes "spawn_error env = None" "start_spawn env w = (w1, e1)"
    "run_events (early_events env) w1 = (w2, e2)"
    "start_ready rid (write_error env) w2 = (w3, e3)"
    "settled rid e3 = None"
    "await rid (timeout (options w3)) (events env) w3 = (w4, e4, r)"
  shows "start rid env w = (fst (start_finish r w4), e1 @ e2 @ e3 @ e4, snd (start_finish r w4))"
  unfolding start_def
  by (simp only: assms Let_def prod.case option.case) (simp add: case_prod_beta)

lemma start_finish_result:
  "snd (start_finish r w) =
     (case r of None \<Rightarrow> None | Some (Inl err) \<Rightarrow> Some (Inl (start_failed (message err)))
      | Some (Inr v) \<Rightarrow> Some (Inr ()))"
  by (simp add: start_finish_def split: option.splits sum.splits)

lemma start_finish_state:
  "fst (start_finish r w) =
     (case r of Some (Inr v) \<Rightarrow> w\<lparr>currentPrecision := precision (options w)\<rparr> | _ \<Rightarrow> w)"
  by (simp add: start_finish_def setPrecision_resolved_def split: option.splits sum.splits)

lemma start_settles: "snd (snd (start rid env w)) \<noteq> None"
proof (cases "spawn_error env")
  case (Some m)
  then show ?thesis by (simp add: start_spawn_fails)
next
  case None
  obtain w1 e1 where 1: "start_spawn env w = (w1, e1)" by (cases "start_spawn env w")
  obtain w2 e2 where 2: "run_events (early_events env) w1 = (w2, e2)"
    by (cases "run_events (early_events env) w1")
  obtain w3 e3 where 3: "start_ready rid (write_error env) w2 = (w3, e3)"
    by (cases "start_ready rid (write_error env) w2")
  show ?thesis
  proof (cases "settled rid e3")
    case (Some r)
    show ?thesis
      unfolding start_sync [OF None 1 2 3 Some]
      by (simp add: start_finish_result split: sum.splits)
  next
    case unsettled: None
    with 3 have "settled rid (snd (start_ready rid (write_error env) w2)) = None" by simp
    from start_ready_unsettled [OF this] 3 have w3: "waiting rid w3"
      by (auto simp: waiting_def)
    obtain w4 e4 r where 4: "await rid (timeout (options w3)) (events env) w3 = (w4, e4, r)"
      by (cases "await rid (timeout (options w3)) (events env) w3")
    from await_waiting [OF w3, of "timeout (options w3)" "events env"] 4
    have "r \<noteq> None" by auto
    then show ?thesis
      unfolding start_async [OF None 1 2 3 unsettled 4]
      by (auto simp: start_finish_result split: sum.splits)
  qed
qed

lemma start_succeeds:
  assumes "snd (snd (start rid env w)) = Some (Inr ())"
  shows "isAvailable (fst (start rid env w)) \<and>
     currentPrecision (fst (start rid env w)) = precision (options w) \<and>
     options (fst (start rid env w)) = options w \<and>
     Write (pid (child env)) (js ''scale='' @ decimal (nat (precision (options w))) @ [10])
       \<in> set (fst (snd (start rid env w))) \<and>
     (\<exists>v. Resolve rid v \<in> set (fst (snd (start rid env w))))"
proof (cases "spawn_error env")
  case (Some m)
  with assms show ?thesis by (simp add: start_spawn_fails)
next
  case None
  obtain w1 e1 where 1: "start_spawn env w = (w1, e1)" by (cases "start_spawn env w")
  obtain w2 e2 where 2: "run_events (early_events env) w1 = (w2, e2)"
    by (cases "run_events (early_events env) w1")
  obtain w3 e3 where 3: "start_ready rid (write_error env) w2 = (w3, e3)"
    by (cases "start_ready rid (write_error env) w2")
  have o1: "options w1 = options w" "process w1 = Some (child env)"
    using 1 by (auto simp: start_spawn_def)
  have o2: "options w2 = options w"
    using options_run_events [of "early_events env" w1] 2 o1 by simp
  have p2: "process w2 = Some (child env) \<or> process w2 = None"
    using process_run_events_cases [of "early_events env" w1] 2 o1 by simp
  show ?thesis
  proof (cases "settled rid e3")
    case (Some r)
    with start_ready_not_resolved [of rid "write_error env" w2] 3
    obtain err where "r = Inl err" by (cases r) auto
    with assms show ?thesis
      unfolding start_sync [OF None 1 2 3 Some] by (simp add: start_finish_result)
  next
    case unsettled: None
    with 3 have u: "settled rid (snd (start_ready rid (write_error env) w2)) = None" by simp
    from start_ready_unsettled [OF u] obtain c where c: "process w2 = Some c"
      and sr: "start_ready rid (write_error env) w2 =
       (w2\<lparr>isReady := True, pendingRequest := Some \<lparr>request = rid, timer = Some rid\<rparr>,
          outputBuffer := [], errorBuffer := []\<rparr>,
        [SetTimeout rid (timeout (options w2)),
         Write (pid c) (js ''scale='' @ decimal (nat (precision (options w2))) @ [10])])"
      by blast
    from c p2 have cc: "c = child env" by simp
    from sr 3 c have w3: "waiting rid w3" "options w3 = options w2"
      by (auto simp: waiting_def)
    from sr 3 cc o2 have e3: "e3 = [SetTimeout rid (timeout (options w)),
         Write (pid (child env)) (js ''scale='' @ decimal (nat (precision (options w))) @ [10])]"
      by simp
    obtain w4 e4 r where 4: "await rid (timeout (options w3)) (events env) w3 = (w4, e4, r)"
      by (cases "await rid (timeout (options w3)) (events env) w3")
    note st = start_async [OF None 1 2 3 unsettled 4]
    from assms have "snd (start_finish r w4) = Some (Inr ())" unfolding st by simp
    then obtain v where r: "r = Some (Inr v)"
      by (auto simp: start_finish_result split: option.splits sum.splits)
    from await_waiting [OF w3(1), of "timeout (options w3)" "events env"] 4 r
    have a: "isAvailable w4" "settled rid e4 = Some (Inr v)" by auto
    have "options (fst (await rid (timeout (options w3)) (events env) w3)) = options w3"
      by (rule options_await)
    then have o4: "options w4 = options w"
      unfolding 4 using w3(2) o2 by simp
    from settled_Inr_mem [OF a(2)] have m1: "Resolve rid v \<in> set (e1 @ e2 @ e3 @ e4)" by simp
    have m2: "Write (pid (child env)) (js ''scale='' @ decimal (nat (precision (options w))) @ [10])
        \<in> set (e1 @ e2 @ e3 @ e4)" using e3 by simp
    have f: "fst (start_finish r w4) = w4\<lparr>currentPrecision := precision (options w)\<rparr>"
      using r o4 by (simp add: start_finish_state)
    have "isAvailable (w4\<lparr>currentPrecision := precision (options w)\<rparr>)"
      using a(1) by (simp add: isAvailable_def)
    with m1 m2 o4 show ?thesis unfolding st f by (simp del: set_append) blast
  qed
qed

section \<open>Properties of the pool\<close>

lemmas example_defs = example_options_def example_config_def example_child_def idle_worker_def
  busy_worker_def good_start_def failing_start_def crashed_worker_def second_child_def
  second_start_def


lemma start_second:
  "start 0 second_start (new_BCProcess example_options) =
     (idle_worker\<lparr>process := Some second_child\<rparr>,
      [Spawn 4243, SetTimeout 0 30000, Write 4243 (js ''scale=20'' @ [10]), ClearTimeout 0,
       Resolve 0 (js ''20'')],
      Some (Inr ()))"
  by (simp add: start_def start_spawn_def start_ready_def start_finish_def setPrecision_def
      setPrecision_resolved_def evaluate_def on_stdout_def resolvePendingRequest_def clear_timer_def
      new_BCProcess_def example_defs js_def trim_def isWhiteSpace_def Let_def)

lemma start_failing:
  "start 0 failing_start (new_BCProcess example_options) =
     (idle_worker\<lparr>errorBuffer := js ''warning'' @ [10]\<rparr>,
      [Spawn 4242, SetTimeout 0 30000, Write 4242 (js ''scale=20'' @ [10]), ClearTimeout 0,
       Reject 0 (bc_error (BCErrorMessage (js ''warning'')) BC_RUNTIME_ERROR)],
      Some (Inl (start_failed (BCErrorMessage (js ''warning'')))))"
  by (simp add: start_def start_spawn_def start_ready_def start_finish_def setPrecision_def
      setPrecision_resolved_def evaluate_def on_stderr_def rejectPendingRequest_def clear_timer_def
      new_BCProcess_def example_defs js_def trim_def isWhiteSpace_def Let_def bc_error_def)

lemma example_options_config:
  "config p = example_config \<Longrightarrow>
   \<lparr>precision = defaultPrecision (config p), timeout = defaultTimeout (config p),
    useMathLibrary = True\<rparr> = example_options"
  by (simp add: example_config_def example_options_def)

lemma createProcess_resolved:
  assumes "start 0 env (new_BCProcess \<lparr>precision = defaultPrecision (config p),
      timeout = defaultTimeout (config p), useMathLibrary = True\<rparr>) = (w, effs, Some (Inr u))"
  shows "createProcess env p =
     (Some (Inr (allocated p)),
      p\<lparr>objects := (objects p)(allocated p := w), allocated := Suc (allocated p),
        processes := processes p @ [allocated p],
        availableProcesses := availableProcesses p @ [allocated p]\<rparr>)"
  unfolding createProcess_def by (simp only: assms Let_def prod.case option.case sum.case) simp

lemma createProcess_rejected:
  assumes "start 0 env (new_BCProcess \<lparr>precision = defaultPrecision (config p),
      timeout = defaultTimeout (config p), useMathLibrary = True\<rparr>) = (w, effs, Some (Inl err))"
  shows "createProcess env p =
     (Some (Inl err), p\<lparr>objects := (objects p)(allocated p := w), allocated := Suc (allocated p)\<rparr>)"
  unfolding createProcess_def by (simp only: assms Let_def prod.case option.case sum.case)

lemma createProcess_returns: "fst (createProcess env p) \<noteq> None"
proof -
  let ?o = "\<lparr>precision = defaultPrecision (config p), timeout = defaultTimeout (config p),
      useMathLibrary = True\<rparr>"
  obtain w effs r where s: "start 0 env (new_BCProcess ?o) = (w, effs, r)"
    by (cases "start 0 env (new_BCProcess ?o)")
  with start_settles [of 0 env "new_BCProcess ?o"] obtain x where r: "r = Some x" by auto
  show ?thesis
  proof (cases x)
    case (Inl err)
    with s r show ?thesis by (simp add: createProcess_rejected)
  next
    case (Inr u)
    with s r show ?thesis by (simp add: createProcess_resolved)
  qed
qed

lemma createProcess_available:
  assumes "createProcess env p = (Some (Inr ref), p')"
  shows "ref = allocated p \<and> isAvailable (objects p' ref) \<and>
     processes p' = processes p @ [ref] \<and>
     availableProcesses p' = availableProcesses p @ [ref]"
proof -
  let ?o = "\<lparr>precision = defaultPrecision (config p), timeout = defaultTimeout (config p),
      useMathLibrary = True\<rparr>"
  obtain w effs r where s: "start 0 env (new_BCProcess ?o) = (w, effs, r)"
    by (cases "start 0 env (new_BCProcess ?o)")
  with start_settles [of 0 env "new_BCProcess ?o"] obtain x where r: "r = Some x" by auto
  show ?thesis
  proof (cases x)
    case (Inl err)
    with s r assms show ?thesis by (simp add: createProcess_rejected)
  next
    case (Inr u)
    with s r have "snd (snd (start 0 env (new_BCProcess ?o))) = Some (Inr ())" by simp
    from start_succeeds [OF this] s have "isAvailable w" by simp
    with s r Inr assms show ?thesis by (auto simp: createProcess_resolved)
  qed
qed

lemma acquireProcess_available:
  assumes "acquireProcess env p = (Some (Inr ref), p')"
  shows "isAvailable (objects p' ref)"
proof (cases "isInitialized p")
  case False
  with assms show ?thesis by (simp add: acquireProcess_def)
next
  case True
  let ?p1 = "wait_for_process (during_sleep env) 0 p"
  show ?thesis
  proof (cases "availableProcesses ?p1")
    case Nil
    with True assms show ?thesis by (simp add: acquireProcess_def)
  next
    case (Cons r rest)
    let ?p2 = "?p1\<lparr>availableProcesses := rest\<rparr>"
    show ?thesis
    proof (cases "isAvailable (objects ?p1 r)")
      case avail: True
      with True Cons assms show ?thesis by (auto simp: acquireProcess_def)
    next
      case dead: False
      let ?p4 = "during_replacement env (?p2\<lparr>objects := kill_object r (objects ?p2)\<rparr>)"
      from True Cons dead assms have "createProcess (replacement env) ?p4 = (Some (Inr ref), p')"
        by (simp add: acquireProcess_def Let_def)
      from createProcess_available [OF this] show ?thesis by blast
    qed
  qed
qed

lemma acquireProcess_returns: "fst (acquireProcess env p) \<noteq> None"
proof (cases "isInitialized p")
  case False
  then show ?thesis by (simp add: acquireProcess_def)
next
  case True
  then show ?thesis
    by (simp add: acquireProcess_def Let_def createProcess_returns [unfolded not_None_eq]
        split: list.splits)
qed

subsection \<open>The example pools\<close>

lemma wait_for_process_available:
  "availableProcesses p \<noteq> [] \<Longrightarrow> wait_for_process sleep t p = p"
  by (simp add: wait_for_process.simps)

lemma example_options_config':
  "\<lparr>precision = defaultPrecision example_config, timeout = defaultTimeout example_config,
    useMathLibrary = True\<rparr> = example_options"
  by (simp add: example_config_def example_options_def)

lemma createProcess_second:
  "config p = example_config \<Longrightarrow>
   createProcess second_start p =
     (Some (Inr (allocated p)),
      p\<lparr>objects := (objects p)(allocated p := idle_worker\<lparr>process := Some second_child\<rparr>),
        allocated := Suc (allocated p),
        processes := processes p @ [allocated p],
        availableProcesses := availableProcesses p @ [allocated p]\<rparr>)"
  by (rule createProcess_resolved) (simp add: example_options_config' start_second)

lemma createProcess_failing:
  "config p = example_config \<Longrightarrow>
   createProcess failing_start p =
     (Some (Inl (start_failed (BCErrorMessage (js ''warning'')))),
      p\<lparr>objects := (objects p)(allocated p := idle_worker\<lparr>errorBuffer := js ''warning'' @ [10]\<rparr>),
        allocated := Suc (allocated p)\<rparr>)"
  by (rule createProcess_rejected) (simp add: example_options_config' start_failing)

lemma acquire_crashed:
  "acquireProcess quiet_env crashed_pool =
     (Some (Inr 1),
      crashed_pool\<lparr>objects := (objects crashed_pool)
          (0 := crashed_worker\<lparr>process := None\<rparr>,
           1 := idle_worker\<lparr>process := Some second_child\<rparr>),
        allocated := 2, processes := [0, 1], availableProcesses := [1]\<rparr>)"
proof -
  have w: "wait_for_process (during_sleep quiet_env) 0 crashed_pool = crashed_pool"
    by (rule wait_for_process_available) (simp add: crashed_pool_def)
  let ?p = "crashed_pool\<lparr>availableProcesses := [],
      objects := kill_object 0 (objects crashed_pool)\<rparr>"
  have c: "config ?p = example_config" by (simp add: crashed_pool_def)
  have "acquireProcess quiet_env crashed_pool = createProcess second_start ?p"
    unfolding acquireProcess_def w
    by (simp add: crashed_pool_def quiet_env_def isAvailable_def crashed_worker_def idle_worker_def)
  also have "\<dots> = (Some (Inr 1),
      crashed_pool\<lparr>objects := (objects crashed_pool)
          (0 := crashed_worker\<lparr>process := None\<rparr>,
           1 := idle_worker\<lparr>process := Some second_child\<rparr>),
        allocated := 2, processes := [0, 1], availableProcesses := [1]\<rparr>)"
    unfolding createProcess_second [OF c]
    by (auto simp: crashed_pool_def kill_object_def kill_def crashed_worker_def idle_worker_def
        fun_eq_iff)
  finally show ?thesis .
qed

lemma settle_order_race: "settle_order (order race_env) (poolSize example_config) = [0, 1]"
  by (simp add: settle_order_def race_env_def example_config_def numeral_2_eq_2)

lemma initialize_race:
  "initialize race_env (new_BCProcessPool example_config) =
     (Some (Inl (bc_error (PoolInitFailedMessage (StartFailedMessage (BCErrorMessage (js ''warning''))))
        BC_SPAWN_ERROR)),
      [second_start],
      (new_BCProcessPool example_config)
        \<lparr>objects := (objects (new_BCProcessPool example_config))
           (0 := idle_worker\<lparr>errorBuffer := js ''warning'' @ [10]\<rparr>),
         allocated := 1\<rparr>)"
proof -
  let ?P = "new_BCProcessPool example_config"
  have c: "config ?P = example_config" "\<not> isInitialized ?P"
    by (simp_all add: new_BCProcessPool_def)
  have m: "map (script race_env) [0, 1] = [failing_start, second_start]"
    by (simp add: race_env_def)
  have pa: "promise_all [failing_start, second_start] ?P =
      (Rejected (start_failed (BCErrorMessage (js ''warning''))) [second_start],
       ?P\<lparr>objects := (objects ?P)(allocated ?P := idle_worker\<lparr>errorBuffer := js ''warning'' @ [10]\<rparr>),
          allocated := Suc (allocated ?P)\<rparr>)"
    by (simp add: createProcess_failing [OF c(1)])
  show ?thesis
    unfolding initialize_def
    by (simp only: c if_False c(1) settle_order_race m pa prod.case all_result.case)
      (simp add: shutdown_def new_BCProcessPool_def start_failed_def bc_error_def)
qed

subsection \<open>\<open>initialize\<close> returns\<close>

lemma promise_all_settles: "fst (promise_all ss p) \<noteq> Hangs"
proof (induction ss arbitrary: p)
  case Nil
  show ?case by simp
next
  case (Cons s ss)
  obtain r p1 where c: "createProcess s p = (r, p1)" by (cases "createProcess s p")
  with createProcess_returns [of s p] obtain x where r: "r = Some x" by auto
  show ?case
  proof (cases x)
    case (Inl err)
    with c r show ?thesis by simp
  next
    case (Inr ref)
    with c r Cons [of p1] show ?thesis by simp
  qed
qed

lemma initialize_returns: "fst (initialize env p) \<noteq> None"
proof (cases "isInitialized p")
  case True
  then show ?thesis by (simp add: initialize_def)
next
  case False
  let ?ss = "map (script env) (settle_order (order env) (poolSize (config p)))"
  obtain r p1 where a: "promise_all ?ss p = (r, p1)" by (cases "promise_all ?ss p")
  with promise_all_settles [of ?ss p] have "r \<noteq> Hangs" by simp
  with False a show ?thesis by (cases r) (simp_all add: initialize_def)
qed

subsection \<open>Further facts about the handlers and \<open>start\<close>\<close>

lemma trim_Nil_iff: "trim data = [] \<longleftrightarrow> list_all isWhiteSpace data"
proof
  assume t: "trim data = []"
  from trim_decompose [of data] obtain l r where
    "data = l @ trim data @ r" "list_all isWhiteSpace l" "list_all isWhiteSpace r" by blast
  with t have "data = l @ r" by simp
  with \<open>list_all isWhiteSpace l\<close> \<open>list_all isWhiteSpace r\<close>
  show "list_all isWhiteSpace data" by simp
next
  assume "list_all isWhiteSpace data"
  then have d: "dropWhile isWhiteSpace data = []" by (induction data) auto
  show "trim data = []" unfolding trim_def d by simp
qed

lemma isReady_on_stdout [simp]: "isReady (fst (on_stdout d w)) = isReady w"
  by (simp add: on_stdout_def Let_def resolvePendingRequest_def split: option.splits)

lemma isReady_on_stderr [simp]: "isReady (fst (on_stderr d w)) = isReady w"
  by (simp add: on_stderr_def Let_def rejectPendingRequest_def split: option.splits)

lemma isReady_on_exit [simp]: "\<not> isReady (fst (on_exit c s w))"
  by (simp add: on_exit_def Let_def rejectPendingRequest_def split: option.splits)

lemma isReady_on_error [simp]: "\<not> isReady (fst (on_error m w))"
  by (simp add: on_error_def Let_def rejectPendingRequest_def split: option.splits)









lemma on_stderr_rejects:
  "pendingRequest w = Some p \<and> trim data \<noteq> [] \<longrightarrow>
     snd (on_stderr data w) =
       clear_timer p @
       [Reject (request p) (bc_error (BCErrorMessage (trim data)) BC_RUNTIME_ERROR)] \<and>
     pendingRequest (fst (on_stderr data w)) = None \<and>
     isReady (fst (on_stderr data w)) = isReady w \<and>
     process (fst (on_stderr data w)) = process w \<and>
     isAvailable (fst (on_stderr data w)) = (isReady w \<and> process w \<noteq> None) \<and>
     (isReady w \<and> process w \<noteq> None \<and> stdin (the (process w)) \<longrightarrow>
        pendingRequest (fst (evaluate rid expression timeout_arg None (fst (on_stderr data w)))) =
          Some \<lparr>request = rid, timer = Some rid\<rparr> \<and>
        snd (evaluate rid expression timeout_arg None (fst (on_stderr data w))) =
          [SetTimeout rid (case timeout_arg of Some t \<Rightarrow> t | None \<Rightarrow> timeout (options w)),
           Write (pid (the (process w))) (expression @ [10])])"
proof
  assume a: "pendingRequest w = Some p \<and> trim data \<noteq> []"
  then have r: "on_stderr data w =
      (w\<lparr>errorBuffer := errorBuffer w @ trim data @ [10], pendingRequest := None\<rparr>,
       clear_timer p @ [Reject (request p) (bc_error (BCErrorMessage (trim data)) BC_RUNTIME_ERROR)])"
    by (simp add: on_stderr_def Let_def rejectPendingRequest_def)
  let ?w = "w\<lparr>errorBuffer := errorBuffer w @ trim data @ [10], pendingRequest := None\<rparr>"
  have e: "isReady w \<and> process w \<noteq> None \<and> stdin (the (process w)) \<longrightarrow>
      evaluate rid expression timeout_arg None ?w =
        (?w\<lparr>pendingRequest := Some \<lparr>request = rid, timer = Some rid\<rparr>,
            outputBuffer := [], errorBuffer := []\<rparr>,
         [SetTimeout rid (case timeout_arg of Some t \<Rightarrow> t | None \<Rightarrow> timeout (options w)),
          Write (pid (the (process w))) (expression @ [10])])"
  proof
    assume "isReady w \<and> process w \<noteq> None \<and> stdin (the (process w))"
    then obtain c where c: "isReady ?w" "process ?w = Some c" "stdin c" by auto
    have n: "pendingRequest ?w = None" by simp
    from evaluate_accepted [OF c n, of rid expression timeout_arg] c(2)
    show "evaluate rid expression timeout_arg None ?w =
        (?w\<lparr>pendingRequest := Some \<lparr>request = rid, timer = Some rid\<rparr>,
            outputBuffer := [], errorBuffer := []\<rparr>,
         [SetTimeout rid (case timeout_arg of Some t \<Rightarrow> t | None \<Rightarrow> timeout (options w)),
          Write (pid (the (process w))) (expression @ [10])])"
      by (cases timeout_arg) simp_all
  qed
  show "snd (on_stderr data w) =
       clear_timer p @
       [Reject (request p) (bc_error (BCErrorMessage (trim data)) BC_RUNTIME_ERROR)] \<and>
     pendingRequest (fst (on_stderr data w)) = None \<and>
     isReady (fst (on_stderr data w)) = isReady w \<and>
     process (fst (on_stderr data w)) = process w \<and>
     isAvailable (fst (on_stderr data w)) = (isReady w \<and> process w \<noteq> None) \<and>
     (isReady w \<and> process w \<noteq> None \<and> stdin (the (process w)) \<longrightarrow>
        pendingRequest (fst (evaluate rid expression timeout_arg None (fst (on_stderr data w)))) =
          Some \<lparr>request = rid, timer = Some rid\<rparr> \<and>
        snd (evaluate rid expression timeout_arg None (fst (on_stderr data w))) =
          [SetTimeout rid (case timeout_arg of Some t \<Rightarrow> t | None \<Rightarrow> timeout (options w)),
           Write (pid (the (process w))) (expression @ [10])])"
    unfolding r using e by (simp add: isAvailable_def)
qed

lemma on_stderr_blank:
  assumes "list_all isWhiteSpace data"
  shows "on_stderr data w = (w\<lparr>errorBuffer := errorBuffer w @ [10]\<rparr>, [])"
proof -
  from assms have "trim data = []" by (simp add: trim_Nil_iff)
  then show ?thesis by (simp add: on_stderr_def Let_def)
qed

section \<open>The claims about the worker and the pool\<close>

text \<open>
  Claim C1, at an input where the code departs from it. The pool is initialized and its
  only available worker, object 0, is no longer ready: its process has exited since it
  was marked available.
  \<open>acquireProcess\<close> takes object 0 from \<open>availableProcesses\<close>, finds it unavailable, kills
  it and creates the replacement, object 1, which \<open>createProcess\<close> appends to
  \<open>availableProcesses\<close>. The call returns object 1, which is available at that moment
  but has not been removed from \<open>availableProcesses\<close>; the dead object 0 stays in
  \<open>processes\<close>; and the next call of \<open>acquireProcess\<close> returns object 1 again.
\<close>

theorem acquire_recovery_stays_available:
  "isInitialized crashed_pool \<and> availableProcesses crashed_pool = [0] \<and>
   \<not> isAvailable (objects crashed_pool 0) \<and>
   fst (acquireProcess quiet_env crashed_pool) = Some (Inr 1) \<and>
   isAvailable (objects (snd (acquireProcess quiet_env crashed_pool)) 1) \<and>
   availableProcesses (snd (acquireProcess quiet_env crashed_pool)) = [1] \<and>
   processes (snd (acquireProcess quiet_env crashed_pool)) = [0, 1] \<and>
   fst (acquireProcess quiet_env (snd (acquireProcess quiet_env crashed_pool))) = Some (Inr 1)"
proof -
  let ?q = "crashed_pool\<lparr>objects := (objects crashed_pool)
          (0 := crashed_worker\<lparr>process := None\<rparr>,
           1 := idle_worker\<lparr>process := Some second_child\<rparr>),
        allocated := 2, processes := [0, 1], availableProcesses := [1]\<rparr>"
  have w: "wait_for_process (during_sleep quiet_env) 0 ?q = ?q"
    by (rule wait_for_process_available) simp
  have 2: "fst (acquireProcess quiet_env ?q) = Some (Inr 1)"
    unfolding acquireProcess_def w
    by (simp add: crashed_pool_def isAvailable_def idle_worker_def)
  have 0: "isInitialized crashed_pool \<and> availableProcesses crashed_pool = [0] \<and>
      \<not> isAvailable (objects crashed_pool 0)"
    by (simp add: crashed_pool_def crashed_worker_def isAvailable_def)
  have 1: "isAvailable (objects ?q 1)" "availableProcesses ?q = [1]" "processes ?q = [0, 1]"
    by (simp_all add: isAvailable_def idle_worker_def)
  show ?thesis
    unfolding acquire_crashed fst_conv snd_conv using 0 1 2 by blast
qed




text \<open>
  Claim C3 fails as stated: the error for a worker that is busy and the error for a
  worker that has not been started carry the same code, \<open>BC_NOT_READY\<close>.
\<close>

theorem busy_error_counterexample:
  "failure_code 2 (snd (evaluate 2 (js ''1+1'') None None busy_worker)) = Some BC_NOT_READY \<and>
   failure_code 2 (snd (evaluate 2 (js ''1+1'') None None (new_BCProcess example_options))) =
     Some BC_NOT_READY \<and>
   pendingRequest busy_worker \<noteq> None \<and> isReady busy_worker \<and>
   \<not> isReady (new_BCProcess example_options)"
  by (simp add: failure_code_def evaluate_def bc_error_def new_BCProcess_def example_defs)

text \<open>
  Claim C3, amended. \<open>evaluate\<close> on a worker that holds a pending request rejects the
  new call at once and leaves the worker as it is, so that whatever happens next happens
  as if the call had not been made. The error has the code \<open>BC_NOT_READY\<close>, as the error
  of a worker that is not ready has; its message is the busy message when the worker is
  ready and its process has an input stream, and the not-ready message otherwise.
\<close>

theorem evaluate_while_pending:
  "pendingRequest w \<noteq> None \<longrightarrow>
     evaluate rid expression timeout_arg w_error w =
       (w, [Reject rid (bc_error
          (if isReady w \<and> process w \<noteq> None \<and> stdin (the (process w))
           then BusyMessage else NotReadyMessage) BC_NOT_READY)]) \<and>
     (\<forall>as. run as (fst (evaluate rid expression timeout_arg w_error w)) = run as w)"
  by (simp add: evaluate_refused)

theorem evaluate_while_pending_witness:
  "pendingRequest busy_worker \<noteq> None \<and>
   evaluate 2 (js ''1+1'') None None busy_worker =
     (busy_worker, [Reject 2 (bc_error BusyMessage BC_NOT_READY)]) \<and>
   run [Event (Stdout (js ''4'' @ [10]))] (fst (evaluate 2 (js ''1+1'') None None busy_worker)) =
     run [Event (Stdout (js ''4'' @ [10]))] busy_worker"
  using evaluate_while_pending [of busy_worker 2 "js ''1+1''" None None]
  by (simp add: example_defs)




text \<open>
  Claim C5. When the deadline timer of the pending request fires, its callback rejects
  the request with \<open>BC_TIMEOUT\<close> and sends the process, if the worker still has one, the
  termination signal; afterwards the worker holds neither request nor process, it is
  unavailable after any further events and calls, and no call of \<open>acquireProcess\<close>
  returns an object that holds this worker.
\<close>

theorem timeout_kills:
  "pendingRequest w = Some p \<longrightarrow>
     (timer p = Some t \<longrightarrow> handle_event (TimerFired t ms) w = on_timeout ms w) \<and>
     snd (on_timeout ms w) =
       clear_timer p @ [Reject (request p) (bc_error (TimeoutMessage ms) BC_TIMEOUT)] @
       (case process w of None \<Rightarrow> [] | Some c \<Rightarrow> [Kill (pid c)]) \<and>
     pendingRequest (fst (on_timeout ms w)) = None \<and>
     process (fst (on_timeout ms w)) = None \<and>
     (process w \<noteq> None \<longrightarrow> \<not> isReady (fst (on_timeout ms w))) \<and>
     (\<forall>as. \<not> isAvailable (run as (fst (on_timeout ms w)))) \<and>
     (\<forall>env pool ref pool' d as.
        acquireProcess env pool = (Some (Inr ref), pool') \<and>
        objects pool' d = run as (fst (on_timeout ms w)) \<longrightarrow> ref \<noteq> d)"
proof
  assume p: "pendingRequest w = Some p"
  have 1: "timer p = Some t \<longrightarrow> handle_event (TimerFired t ms) w = on_timeout ms w"
    using p by simp
  note 2 = on_timeout_pending [OF p, of ms]
  have 3: "pendingRequest (fst (on_timeout ms w)) = None"
    "process w \<noteq> None \<longrightarrow> \<not> isReady (fst (on_timeout ms w))"
    unfolding 2 by (auto simp: kill_def split: option.splits)
  have 4: "process (fst (on_timeout ms w)) = None" by simp
  have 5: "\<forall>as. \<not> isAvailable (run as (fst (on_timeout ms w)))"
    using dead_forever [OF 4] by blast
  have 6: "\<forall>env pool ref pool' d as.
        acquireProcess env pool = (Some (Inr ref), pool') \<and>
        objects pool' d = run as (fst (on_timeout ms w)) \<longrightarrow> ref \<noteq> d"
  proof (intro allI impI notI)
    fix env pool ref pool' d as
    assume a: "acquireProcess env pool = (Some (Inr ref), pool') \<and>
        objects pool' d = run as (fst (on_timeout ms w))" and e: "ref = d"
    from a acquireProcess_available [of env pool ref pool']
    have "isAvailable (objects pool' ref)" by blast
    with a e 5 show False by simp
  qed
  have 7: "snd (on_timeout ms w) =
       clear_timer p @ [Reject (request p) (bc_error (TimeoutMessage ms) BC_TIMEOUT)] @
       (case process w of None \<Rightarrow> [] | Some c \<Rightarrow> [Kill (pid c)])"
    unfolding 2 by simp
  show "(timer p = Some t \<longrightarrow> handle_event (TimerFired t ms) w = on_timeout ms w) \<and>
     snd (on_timeout ms w) =
       clear_timer p @ [Reject (request p) (bc_error (TimeoutMessage ms) BC_TIMEOUT)] @
       (case process w of None \<Rightarrow> [] | Some c \<Rightarrow> [Kill (pid c)]) \<and>
     pendingRequest (fst (on_timeout ms w)) = None \<and>
     process (fst (on_timeout ms w)) = None \<and>
     (process w \<noteq> None \<longrightarrow> \<not> isReady (fst (on_timeout ms w))) \<and>
     (\<forall>as. \<not> isAvailable (run as (fst (on_timeout ms w)))) \<and>
     (\<forall>env pool ref pool' d as.
        acquireProcess env pool = (Some (Inr ref), pool') \<and>
        objects pool' d = run as (fst (on_timeout ms w)) \<longrightarrow> ref \<noteq> d)"
    by (intro conjI 1 7 3 4 5 6)
qed

theorem timeout_kills_witness:
  "pendingRequest busy_worker = Some \<lparr>request = 1, timer = Some 1\<rparr> \<and>
   handle_event (TimerFired 1 30000) busy_worker = on_timeout 30000 busy_worker \<and>
   snd (on_timeout 30000 busy_worker) =
     [ClearTimeout 1, Reject 1 (bc_error (TimeoutMessage 30000) BC_TIMEOUT), Kill 4242] \<and>
   \<not> isAvailable (run [Event (Stdout (js ''4'' @ [10])), Evaluate 2 (js ''1+1'') None None, KillCall]
       (fst (on_timeout 30000 busy_worker))) \<and>
   acquireProcess quiet_env crashed_pool =
     (Some (Inr 1),
      crashed_pool\<lparr>objects := (objects crashed_pool)
          (0 := crashed_worker\<lparr>process := None\<rparr>,
           1 := idle_worker\<lparr>process := Some second_child\<rparr>),
        allocated := 2, processes := [0, 1], availableProcesses := [1]\<rparr>) \<and>
   crashed_worker\<lparr>process := None\<rparr> = run [] (fst (on_timeout 30000 busy_worker)) \<and>
   (1::nat) \<noteq> 0"
proof -
  let ?p = "\<lparr>request = 1, timer = Some (1::nat)\<rparr>"
  let ?as = "[Event (Stdout (js ''4'' @ [10])), Evaluate 2 (js ''1+1'') None None, KillCall]"
  note t = timeout_kills [of busy_worker ?p 1 30000]
  have p: "pendingRequest busy_worker = Some ?p" "timer ?p = Some 1"
    "process busy_worker = Some example_child"
    by (simp_all add: busy_worker_def idle_worker_def)
  from t p have 1: "handle_event (TimerFired 1 30000) busy_worker = on_timeout 30000 busy_worker"
    by blast
  from t p(1) have "snd (on_timeout 30000 busy_worker) =
       clear_timer ?p @ [Reject (request ?p) (bc_error (TimeoutMessage 30000) BC_TIMEOUT)] @
       (case process busy_worker of None \<Rightarrow> [] | Some c \<Rightarrow> [Kill (pid c)])"
    by blast
  then have 2: "snd (on_timeout 30000 busy_worker) =
     [ClearTimeout 1, Reject 1 (bc_error (TimeoutMessage 30000) BC_TIMEOUT), Kill 4242]"
    by (simp add: p(3) clear_timer_def example_child_def)
  from t p(1) have "\<forall>as. \<not> isAvailable (run as (fst (on_timeout 30000 busy_worker)))"
    by blast
  then have 3: "\<not> isAvailable (run ?as (fst (on_timeout 30000 busy_worker)))"
    by blast
  have 4: "crashed_worker\<lparr>process := None\<rparr> = run [] (fst (on_timeout 30000 busy_worker))"
    unfolding on_timeout_pending [OF p(1)]
    by (simp add: kill_def crashed_worker_def busy_worker_def idle_worker_def)
  from p(1) 1 2 3 4 acquire_crashed show ?thesis by simp
qed

text \<open>
  Claim C6 fails as stated: a chunk that is not empty but consists of white space, here a
  single line feed, rejects nothing, and the request stays pending.
\<close>

theorem stderr_blank_counterexample:
  "[10] \<noteq> ([] :: jsstring) \<and> pendingRequest busy_worker = Some \<lparr>request = 1, timer = Some 1\<rparr> \<and>
   snd (on_stderr [10] busy_worker) = [] \<and>
   pendingRequest (fst (on_stderr [10] busy_worker)) = Some \<lparr>request = 1, timer = Some 1\<rparr>"
  by (simp add: on_stderr_def Let_def trim_def isWhiteSpace_def example_defs)

text \<open>
  Claim C6, amended. Whenever a chunk whose trimmed text is not empty arrives on the
  error stream while a request is pending, the request is rejected with
  \<open>BC_RUNTIME_ERROR\<close> and the trimmed text, its timer is cleared and the pending record is
  cleared; the ready flag and the process are unchanged, so the worker is available
  exactly when it is ready and has its process, and then it accepts the next evaluation.
  A chunk that consists of white space only rejects nothing, on any worker: it adds a
  line feed to the error buffer and leaves the pending request as it is.
\<close>

theorem stderr_rejects:
  "(pendingRequest w = Some p \<and> trim data \<noteq> [] \<longrightarrow>
     snd (on_stderr data w) =
       clear_timer p @
       [Reject (request p) (bc_error (BCErrorMessage (trim data)) BC_RUNTIME_ERROR)] \<and>
     pendingRequest (fst (on_stderr data w)) = None \<and>
     isReady (fst (on_stderr data w)) = isReady w \<and>
     process (fst (on_stderr data w)) = process w \<and>
     isAvailable (fst (on_stderr data w)) = (isReady w \<and> process w \<noteq> None) \<and>
     (isReady w \<and> process w \<noteq> None \<and> stdin (the (process w)) \<longrightarrow>
        pendingRequest (fst (evaluate rid expression timeout_arg None (fst (on_stderr data w)))) =
          Some \<lparr>request = rid, timer = Some rid\<rparr> \<and>
        snd (evaluate rid expression timeout_arg None (fst (on_stderr data w))) =
          [SetTimeout rid (case timeout_arg of Some t \<Rightarrow> t | None \<Rightarrow> timeout (options w)),
           Write (pid (the (process w))) (expression @ [10])])) \<and>
   (list_all isWhiteSpace data \<longrightarrow>
      on_stderr data w = (w\<lparr>errorBuffer := errorBuffer w @ [10]\<rparr>, []) \<and>
      pendingRequest (fst (on_stderr data w)) = pendingRequest w)"
proof (rule conjI)
  show "pendingRequest w = Some p \<and> trim data \<noteq> [] \<longrightarrow>
     snd (on_stderr data w) =
       clear_timer p @
       [Reject (request p) (bc_error (BCErrorMessage (trim data)) BC_RUNTIME_ERROR)] \<and>
     pendingRequest (fst (on_stderr data w)) = None \<and>
     isReady (fst (on_stderr data w)) = isReady w \<and>
     process (fst (on_stderr data w)) = process w \<and>
     isAvailable (fst (on_stderr data w)) = (isReady w \<and> process w \<noteq> None) \<and>
     (isReady w \<and> process w \<noteq> None \<and> stdin (the (process w)) \<longrightarrow>
        pendingRequest (fst (evaluate rid expression timeout_arg None (fst (on_stderr data w)))) =
          Some \<lparr>request = rid, timer = Some rid\<rparr> \<and>
        snd (evaluate rid expression timeout_arg None (fst (on_stderr data w))) =
          [SetTimeout rid (case timeout_arg of Some t \<Rightarrow> t | None \<Rightarrow> timeout (options w)),
           Write (pid (the (process w))) (expression @ [10])])"
    by (rule on_stderr_rejects)
  show "list_all isWhiteSpace data \<longrightarrow>
      on_stderr data w = (w\<lparr>errorBuffer := errorBuffer w @ [10]\<rparr>, []) \<and>
      pendingRequest (fst (on_stderr data w)) = pendingRequest w"
    by (auto simp: on_stderr_blank)
qed

theorem stderr_rejects_witness:
  "pendingRequest busy_worker = Some \<lparr>request = 1, timer = Some 1\<rparr> \<and>
   trim (js ''Runtime error (func=(main), adr=3): Divide by zero'' @ [10]) \<noteq> [] \<and>
   snd (on_stderr (js ''Runtime error (func=(main), adr=3): Divide by zero'' @ [10]) busy_worker) =
     [ClearTimeout 1,
      Reject 1 (bc_error
        (BCErrorMessage (js ''Runtime error (func=(main), adr=3): Divide by zero''))
        BC_RUNTIME_ERROR)] \<and>
   isAvailable
     (fst (on_stderr (js ''Runtime error (func=(main), adr=3): Divide by zero'' @ [10]) busy_worker)) \<and>
   list_all isWhiteSpace [32, 10] \<and>
   on_stderr [32, 10] busy_worker = (busy_worker\<lparr>errorBuffer := [10]\<rparr>, [])"
proof -
  let ?d = "js ''Runtime error (func=(main), adr=3): Divide by zero'' @ [10]"
  have t: "trim ?d = js ''Runtime error (func=(main), adr=3): Divide by zero''"
    by (simp add: js_def trim_def isWhiteSpace_def)
  have n: "js ''Runtime error (func=(main), adr=3): Divide by zero'' \<noteq> []"
    by (simp add: js_def)
  have p: "pendingRequest busy_worker = Some \<lparr>request = 1, timer = Some 1\<rparr>"
    "isReady busy_worker" "process busy_worker \<noteq> None"
    by (simp_all add: example_defs)
  have b: "list_all isWhiteSpace [32, 10]" by (simp add: isWhiteSpace_def)
  have e: "errorBuffer busy_worker = []" by (simp add: example_defs)
  have 1: "snd (on_stderr ?d busy_worker) =
     [ClearTimeout 1,
      Reject 1 (bc_error
        (BCErrorMessage (js ''Runtime error (func=(main), adr=3): Divide by zero''))
        BC_RUNTIME_ERROR)] \<and>
     isAvailable (fst (on_stderr ?d busy_worker))"
    using stderr_rejects [of busy_worker "\<lparr>request = 1, timer = Some 1\<rparr>" ?d] p n
    unfolding t by (simp add: clear_timer_def)
  have 2: "on_stderr [32, 10] busy_worker = (busy_worker\<lparr>errorBuffer := [10]\<rparr>, [])"
    using stderr_rejects [of busy_worker _ "[32, 10]"] b e by simp
  from p(1) t n b 1 2 show ?thesis by simp
qed

text \<open>
  Claim C8, at an input where the code departs from it. Two workers are being started.
  The start of worker 0 is rejected first: \<open>initialize\<close> fails and \<open>shutdown\<close> empties the
  pool, while the start of worker 1 is still running. When that start succeeds,
  \<open>createProcess\<close> adds worker 1 to \<open>processes\<close> and \<open>availableProcesses\<close>: the pool that
  failed to initialize holds a member with a live process.
\<close>

theorem initialize_race_leaves_worker:
  "fst (initialize race_env (new_BCProcessPool example_config)) =
     Some (Inl (bc_error
       (PoolInitFailedMessage (StartFailedMessage (BCErrorMessage (js ''warning''))))
       BC_SPAWN_ERROR)) \<and>
   fst (snd (initialize race_env (new_BCProcessPool example_config))) = [second_start] \<and>
   processes (snd (snd (initialize race_env (new_BCProcessPool example_config)))) = [] \<and>
   processes (settle_rest (fst (snd (initialize race_env (new_BCProcessPool example_config))))
     (snd (snd (initialize race_env (new_BCProcessPool example_config))))) = [1] \<and>
   availableProcesses (settle_rest (fst (snd (initialize race_env (new_BCProcessPool example_config))))
     (snd (snd (initialize race_env (new_BCProcessPool example_config))))) = [1] \<and>
   \<not> isInitialized (settle_rest (fst (snd (initialize race_env (new_BCProcessPool example_config))))
     (snd (snd (initialize race_env (new_BCProcessPool example_config))))) \<and>
   process (objects (settle_rest (fst (snd (initialize race_env (new_BCProcessPool example_config))))
     (snd (snd (initialize race_env (new_BCProcessPool example_config))))) 1) = Some second_child \<and>
   isAvailable (objects (settle_rest (fst (snd (initialize race_env (new_BCProcessPool example_config))))
     (snd (snd (initialize race_env (new_BCProcessPool example_config))))) 1)"
proof -
  let ?P = "(new_BCProcessPool example_config)
        \<lparr>objects := (objects (new_BCProcessPool example_config))
           (0 := idle_worker\<lparr>errorBuffer := js ''warning'' @ [10]\<rparr>),
         allocated := 1\<rparr>"
  have c: "config ?P = example_config" by (simp add: new_BCProcessPool_def)
  have s: "settle_rest [second_start] ?P =
      ?P\<lparr>objects := (objects ?P)(1 := idle_worker\<lparr>process := Some second_child\<rparr>),
         allocated := 2, processes := [1], availableProcesses := [1]\<rparr>"
    unfolding settle_rest.simps createProcess_second [OF c]
    by (simp add: new_BCProcessPool_def)
  show ?thesis
    unfolding initialize_race fst_conv snd_conv s
    by (simp add: new_BCProcessPool_def isAvailable_def idle_worker_def)
qed

end
